theory Spec2Isabelle
  imports Complex_Main
begin

section \<open>Data model\<close>

text \<open>
  The five structural operations of \<^verbatim>\<open>class Operation(Enum)\<close>.
\<close>

datatype Operation =
    CREATE_LEAF
  | SPLIT_COLUMNS
  | SPLIT_ROWS
  | NAIVE_FACTORIZATION
  | REMOVE_UNINFORMATIVE_FEATURES

text \<open>
  The exceptions the Python code can raise; every raise is a branch \<open>Inl e\<close> of the
  model.
\<close>

datatype error = AssertionError | IndexError | KeyError | TypeError | AttributeError

text \<open>
  A two-dimensional numpy array, stored by columns: \<open>shape0\<close> is the number of rows
  (\<^verbatim>\<open>data.shape[0]\<close>, which is meaningful also when there is no column), and
  \<open>columns\<close> holds one list of \<open>shape0\<close> cells per column.  The cells are real numbers
  (every finite float64 is one); the arithmetic numpy does on them is floating-point
  arithmetic and is not modelled: \<^verbatim>\<open>np.var\<close> is a parameter of the policy below.
\<close>

record ndarray =
  shape0 :: nat
  columns :: "real list list"

definition shape1 :: "ndarray \<Rightarrow> nat" where
  "shape1 data = length (columns data)"

text \<open>
  A scope is a Python list of column identifiers; scope-relative positions are indices
  into that list.  Both are plain integers in the source, here naturals.
\<close>

type_synonym scope = "nat list"

text \<open>
  The population variance (\<^verbatim>\<open>ddof = 0\<close>) of one column in exact arithmetic; on a column
  without cells numpy answers \<^verbatim>\<open>nan\<close>, here \<open>None\<close>, and \<^verbatim>\<open>nan == 0\<close> is false.
  The float64 \<^verbatim>\<open>np.var\<close> agrees with it on the columns of the example datasets of this
  development, whose cells are small integers (their sums, means and squared deviations
  are computed without rounding), and \<open>np_var\<close> is used on those only.  It does not
  agree in general: a constant column of 0.1 has the float64 variance 1.9e-34, and the
  varying column [1e-200, 2e-200] has the float64 variance 0.
\<close>

definition np_mean :: "real list \<Rightarrow> real" where
  "np_mean xs = sum_list xs / real (length xs)"

definition np_var :: "real list \<Rightarrow> real option" where
  "np_var xs =
     (if xs = [] then None
      else Some (np_mean (map (\<lambda>x. (x - np_mean xs)\<^sup>2) xs)))"

text \<open>
  \<^verbatim>\<open>arr[mask]\<close> for a one-dimensional array and a boolean mask: the selected entries
  in order; numpy raises IndexError when the mask and the array differ in length.
\<close>

definition bool_index :: "'a list \<Rightarrow> bool list \<Rightarrow> error + 'a list" where
  "bool_index arr key =
     (if length key \<noteq> length arr then Inl IndexError
      else Inr (map fst (filter snd (zip arr key))))"

section \<open>The operation policy\<close>

type_synonym op_result = "error + (Operation \<times> nat list option)"

text \<open>
  \<^verbatim>\<open>next_operation\<close>, the closure returned by \<^verbatim>\<open>get_next_operation\<close>.  The first
  argument \<open>var\<close> stands for numpy's \<^verbatim>\<open>np.var\<close> on one column (\<open>None\<close> for \<^verbatim>\<open>nan\<close>),
  whatever it computes; the second is the closure variable \<^verbatim>\<open>min_instances_slice\<close>.
\<close>

definition next_operation_with ::
  "(real list \<Rightarrow> real option) \<Rightarrow> int \<Rightarrow> ndarray \<Rightarrow> scope \<Rightarrow> bool \<Rightarrow> bool \<Rightarrow> bool \<Rightarrow> bool
   \<Rightarrow> bool \<Rightarrow> op_result" where
  "next_operation_with var min_instances_slice data scope no_clusters no_independencies
       is_first cluster_first cluster_univariate =
     (let minimalFeatures = (length scope = 1);
          minimalInstances = (int (shape0 data) \<le> min_instances_slice)
      in
      if minimalFeatures then
        (if minimalInstances \<or> no_clusters then Inr (CREATE_LEAF, None)
         else if cluster_univariate then Inr (SPLIT_ROWS, None)
         else Inr (CREATE_LEAF, None))
      else
        let uninformative_features_idx =
              map (\<lambda>c. var c = Some 0) (take (length scope) (columns data));
            ncols_zero_variance = length (filter id uninformative_features_idx)
        in
        if ncols_zero_variance > 0 then
          (if ncols_zero_variance = shape1 data then Inr (NAIVE_FACTORIZATION, None)
           else
             (case bool_index [0..<length scope] uninformative_features_idx of
                Inl e \<Rightarrow> Inl e
              | Inr idx \<Rightarrow> Inr (REMOVE_UNINFORMATIVE_FEATURES, Some idx)))
        else if minimalInstances \<or> (no_clusters \<and> no_independencies) then
          Inr (NAIVE_FACTORIZATION, None)
        else if no_independencies then Inr (SPLIT_ROWS, None)
        else if no_clusters then Inr (SPLIT_COLUMNS, None)
        else if is_first then
          (if cluster_first then Inr (SPLIT_ROWS, None) else Inr (SPLIT_COLUMNS, None))
        else Inr (SPLIT_COLUMNS, None))"

text \<open>
  The policy with the exact variance for \<^verbatim>\<open>np.var\<close>: what the code computes on the
  example datasets.
\<close>

definition next_operation ::
  "int \<Rightarrow> ndarray \<Rightarrow> scope \<Rightarrow> bool \<Rightarrow> bool \<Rightarrow> bool \<Rightarrow> bool \<Rightarrow> bool \<Rightarrow> op_result" where
  "next_operation min_instances_slice data scope no_clusters no_independencies is_first
       cluster_first cluster_univariate =
     next_operation_with np_var min_instances_slice data scope no_clusters no_independencies
       is_first cluster_first cluster_univariate"


section \<open>The structure builder\<close>

text \<open>
  Modelled from the spec: the node classes \<^verbatim>\<open>Sum\<close> and \<^verbatim>\<open>Product\<close> are imported
  from \<^verbatim>\<open>spn.structure.Base\<close>, which is not part of the source.  The specification and
  the use the builder makes of them give a Sum node a scope, an ordered list of children
  and a list of weights, a Product node a scope and an ordered list of children, all
  empty in a new node; a leaf is whatever \<^verbatim>\<open>create_leaf\<close> returns, never inspected.
  The identifier of a node is written by \<^verbatim>\<open>assign_ids\<close> only and is left to that
  collaborator.

  Nodes are Python objects that the builder mutates through references, so they live in
  a heap: a list of nodes, a reference being an index into it.  A child slot holds
  \<open>None\<close> (the placeholder) or a reference.
\<close>

type_synonym ref = nat

datatype 'l node =
    Sum scope "ref option list" "real list"
  | Product scope "ref option list"
  | Leaf 'l

type_synonym 'l heap = "'l node list"

text \<open>\<^verbatim>\<open>Product()\<close> and \<^verbatim>\<open>Sum()\<close>\<close>

definition new_Product :: "'l node" where
  "new_Product = Product [] []"

definition new_Sum :: "'l node" where
  "new_Sum = Sum [] [] []"

text \<open>\<^verbatim>\<open>node.scope.extend(scope)\<close>\<close>

fun extend_scope :: "scope \<Rightarrow> 'l node \<Rightarrow> 'l node" where
  "extend_scope scope (Sum s cs ws) = Sum (s @ scope) cs ws"
| "extend_scope scope (Product s cs) = Product (s @ scope) cs"
| "extend_scope scope (Leaf l) = Leaf l"

fun children :: "'l node \<Rightarrow> ref option list" where
  "children (Sum s cs ws) = cs"
| "children (Product s cs) = cs"
| "children (Leaf l) = []"

text \<open>
  A task is the tuple
  \<^verbatim>\<open>(local_data, parent, children_pos, scope, no_clusters, no_independencies)\<close>.
\<close>

type_synonym task = "ndarray \<times> ref \<times> nat \<times> scope \<times> bool \<times> bool"

text \<open>The triples returned by \<^verbatim>\<open>split_rows\<close> and \<^verbatim>\<open>split_cols\<close>.\<close>

type_synonym slices = "(ndarray \<times> scope \<times> real) list"

text \<open>
  The policy as \<^verbatim>\<open>learn_structure\<close> calls it (lines 106-108): with the data, the scope
  and the three keywords \<^verbatim>\<open>no_clusters\<close>, \<^verbatim>\<open>no_independencies\<close>, \<^verbatim>\<open>is_first\<close>.
\<close>

type_synonym policy = "ndarray \<Rightarrow> scope \<Rightarrow> bool \<Rightarrow> bool \<Rightarrow> bool \<Rightarrow> op_result"

text \<open>
  \<^verbatim>\<open>get_next_operation(min_instances_slice)\<close> under that call: the two parameters the
  call leaves out take the defaults of line 33, \<^verbatim>\<open>cluster_first=True\<close> and
  \<^verbatim>\<open>cluster_univariate=False\<close>.
\<close>

definition get_next_operation :: "int \<Rightarrow> policy" where
  "get_next_operation min_instances_slice =
     (\<lambda>data scope no_clusters no_independencies is_first.
        next_operation min_instances_slice data scope no_clusters no_independencies is_first
          True False)"

text \<open>
  \<^verbatim>\<open>default_slicer\<close>: one column keeps its two-dimensional shape; numpy raises
  IndexError for a column position outside the array.
\<close>

definition default_slicer :: "ndarray \<Rightarrow> nat list \<Rightarrow> error + ndarray" where
  "default_slicer data cols =
     (if length cols = 1 then
        (if hd cols < shape1 data
         then Inr \<lparr>shape0 = shape0 data, columns = [columns data ! hd cols]\<rparr>
         else Inl IndexError)
      else if list_all (\<lambda>c. c < shape1 data) cols
        then Inr \<lparr>shape0 = shape0 data, columns = map (\<lambda>c. columns data ! c) cols\<rparr>
        else Inl IndexError)"

text \<open>
  \<^verbatim>\<open>parent.children[children_pos] = node\<close>.  Python raises IndexError when the slot
  does not exist and AttributeError when the parent has no children list; a reference
  is always to a live object, so the last branch is never taken by the builder.
\<close>

definition set_child :: "'l heap \<Rightarrow> ref \<Rightarrow> nat \<Rightarrow> ref \<Rightarrow> error + 'l heap" where
  "set_child h parent children_pos node =
     (if parent < length h then
        (case h ! parent of
           Sum s cs ws \<Rightarrow>
             if children_pos < length cs
             then Inr (h[parent := Sum s (cs[children_pos := Some node]) ws])
             else Inl IndexError
         | Product s cs \<Rightarrow>
             if children_pos < length cs
             then Inr (h[parent := Product s (cs[children_pos := Some node])])
             else Inl IndexError
         | Leaf l \<Rightarrow> Inl AttributeError)
      else Inl AttributeError)"

text \<open>
  \<^verbatim>\<open>node.children.append(None)\<close> and \<^verbatim>\<open>node.weights.append(proportion)\<close> on the node
  the handler has just created (a Sum or a Product, never a leaf).
\<close>

fun add_child :: "'l node \<Rightarrow> 'l node" where
  "add_child (Sum s cs ws) = Sum s (cs @ [None]) ws"
| "add_child (Product s cs) = Product s (cs @ [None])"
| "add_child (Leaf l) = Leaf l"

fun add_weight :: "real \<Rightarrow> 'l node \<Rightarrow> 'l node" where
  "add_weight w (Sum s cs ws) = Sum s cs (ws @ [w])"
| "add_weight w (Product s cs) = Product s cs"
| "add_weight w (Leaf l) = Leaf l"

definition append_child :: "'l heap \<Rightarrow> ref \<Rightarrow> 'l heap" where
  "append_child h node = h[node := add_child (h ! node)]"

definition append_weight :: "'l heap \<Rightarrow> ref \<Rightarrow> real \<Rightarrow> 'l heap" where
  "append_weight h node w = h[node := add_weight w (h ! node)]"

text \<open>\<^verbatim>\<open>len(node.children) - 1\<close>\<close>

definition last_slot :: "'l heap \<Rightarrow> ref \<Rightarrow> nat" where
  "last_slot h node = length (children (h ! node)) - 1"

text \<open>
  The synthetic root is the first object created, reference 0:
  \<^verbatim>\<open>root = Product(); root.children.append(None)\<close>.
\<close>

definition root :: ref where
  "root = 0"

definition initial_heap :: "'l heap" where
  "initial_heap = [add_child new_Product]"

subsection \<open>The five handlers\<close>

text \<open>
  Lines 119-122, the loop over \<^verbatim>\<open>op_params\<close>.  \<^verbatim>\<open>rest_scope\<close> is a Python set of
  small integers, kept here as the ascending list of its members, which is the order in
  which CPython lists it at line 132; \<^verbatim>\<open>set.remove\<close> raises KeyError on a value that
  is not in the set.
\<close>

fun remove_columns ::
  "(ndarray \<Rightarrow> nat list \<Rightarrow> error + ndarray) \<Rightarrow> ndarray \<Rightarrow> scope \<Rightarrow> ref \<Rightarrow> nat list
   \<Rightarrow> 'l heap \<times> task list \<times> nat list \<Rightarrow> error + ('l heap \<times> task list \<times> nat list)" where
  "remove_columns data_slicer local_data scope node [] (h, tasks, rest_scope) =
     Inr (h, tasks, rest_scope)"
| "remove_columns data_slicer local_data scope node (col # cols) (h, tasks, rest_scope) =
     (if col \<notin> set rest_scope then Inl KeyError
      else
        let rest_scope' = removeAll col rest_scope;
            h' = append_child h node
        in
        (case data_slicer local_data [col] of
           Inl e \<Rightarrow> Inl e
         | Inr slice \<Rightarrow>
             if col < length scope then
               remove_columns data_slicer local_data scope node cols
                 (h', tasks @ [(slice, node, last_slot h' node, [scope ! col], True, True)],
                  rest_scope')
             else Inl IndexError))"

text \<open>Lines 112-136.  An auxiliary parameter None cannot be iterated: TypeError.\<close>

definition handle_remove_uninformative_features ::
  "(ndarray \<Rightarrow> nat list \<Rightarrow> error + ndarray) \<Rightarrow> 'l heap \<Rightarrow> task list \<Rightarrow> task
   \<Rightarrow> nat list option \<Rightarrow> error + ('l heap \<times> task list)" where
  "handle_remove_uninformative_features data_slicer h tasks t op_params =
     (case t of (local_data, parent, children_pos, scope, no_clusters, no_independencies) \<Rightarrow>
        let node = length h;
            h1 = h @ [extend_scope scope new_Product]
        in
        (case set_child h1 parent children_pos node of
           Inl e \<Rightarrow> Inl e
         | Inr h2 \<Rightarrow>
             (case op_params of
                None \<Rightarrow> Inl TypeError
              | Some cols \<Rightarrow>
                  (case remove_columns data_slicer local_data scope node cols
                          (h2, tasks, [0..<length scope]) of
                     Inl e \<Rightarrow> Inl e
                   | Inr (h3, tasks3, rest_scope) \<Rightarrow>
                       let h4 = append_child h3 node;
                           c_pos = last_slot h4 node;
                           next_final = (length rest_scope = 1)
                       in
                       (case data_slicer local_data rest_scope of
                          Inl e \<Rightarrow> Inl e
                        | Inr slice \<Rightarrow>
                            Inr (h4, tasks3 @
                                 [(slice, node, c_pos, rest_scope, next_final, next_final)]))))))"

text \<open>Lines 154-159, the loop over the row slices.\<close>

fun enqueue_row_slices ::
  "ref \<Rightarrow> scope \<Rightarrow> slices \<Rightarrow> 'l heap \<times> task list \<Rightarrow> 'l heap \<times> task list" where
  "enqueue_row_slices node scope [] (h, tasks) = (h, tasks)"
| "enqueue_row_slices node scope ((data_slice, scope_slice, proportion) # rest) (h, tasks) =
     (let h1 = append_child h node;
          h2 = append_weight h1 node proportion
      in enqueue_row_slices node scope rest
           (h2, tasks @ [(data_slice, node, last_slot h2 node, scope, False, False)]))"

text \<open>Lines 138-161.\<close>

definition handle_split_rows ::
  "'c \<Rightarrow> (ndarray \<Rightarrow> 'c \<Rightarrow> scope \<Rightarrow> slices) \<Rightarrow> 'l heap \<Rightarrow> task list \<Rightarrow> task
   \<Rightarrow> error + ('l heap \<times> task list)" where
  "handle_split_rows ds_context split_rows h tasks t =
     (case t of (local_data, parent, children_pos, scope, no_clusters, no_independencies) \<Rightarrow>
        let data_slices = split_rows local_data ds_context scope in
        if length data_slices = 1 then
          Inr (h, tasks @ [(local_data, parent, children_pos, scope, True, False)])
        else
          let node = length h;
              h1 = h @ [extend_scope scope new_Sum]
          in
          (case set_child h1 parent children_pos node of
             Inl e \<Rightarrow> Inl e
           | Inr h2 \<Rightarrow> Inr (enqueue_row_slices node scope data_slices (h2, tasks))))"

text \<open>Lines 179-183, the loop over the column slices.\<close>

fun enqueue_col_slices ::
  "ref \<Rightarrow> slices \<Rightarrow> 'l heap \<times> task list \<Rightarrow> 'l heap \<times> task list" where
  "enqueue_col_slices node [] (h, tasks) = (h, tasks)"
| "enqueue_col_slices node ((data_slice, scope_slice, ignored) # rest) (h, tasks) =
     (let h1 = append_child h node
      in enqueue_col_slices node rest
           (h1, tasks @ [(data_slice, node, last_slot h1 node, scope_slice, False, False)]))"

text \<open>Lines 163-184.\<close>

definition handle_split_columns ::
  "'c \<Rightarrow> (ndarray \<Rightarrow> 'c \<Rightarrow> scope \<Rightarrow> slices) \<Rightarrow> 'l heap \<Rightarrow> task list \<Rightarrow> task
   \<Rightarrow> error + ('l heap \<times> task list)" where
  "handle_split_columns ds_context split_cols h tasks t =
     (case t of (local_data, parent, children_pos, scope, no_clusters, no_independencies) \<Rightarrow>
        let data_slices = split_cols local_data ds_context scope in
        if length data_slices = 1 then
          Inr (h, tasks @ [(local_data, parent, children_pos, scope, False, True)])
        else
          let node = length h;
              h1 = h @ [extend_scope scope new_Product]
          in
          (case set_child h1 parent children_pos node of
             Inl e \<Rightarrow> Inl e
           | Inr h2 \<Rightarrow> Inr (enqueue_col_slices node data_slices (h2, tasks))))"

text \<open>Lines 192-194, the loop over \<^verbatim>\<open>range(len(scope))\<close>.\<close>

fun factorize_columns ::
  "(ndarray \<Rightarrow> nat list \<Rightarrow> error + ndarray) \<Rightarrow> ndarray \<Rightarrow> scope \<Rightarrow> ref \<Rightarrow> nat list
   \<Rightarrow> 'l heap \<times> task list \<Rightarrow> error + ('l heap \<times> task list)" where
  "factorize_columns data_slicer local_data scope node [] (h, tasks) = Inr (h, tasks)"
| "factorize_columns data_slicer local_data scope node (col # cols) (h, tasks) =
     (let h' = append_child h node in
      (case data_slicer local_data [col] of
         Inl e \<Rightarrow> Inl e
       | Inr slice \<Rightarrow>
           if col < length scope then
             factorize_columns data_slicer local_data scope node cols
               (h', tasks @ [(slice, node, last_slot h' node, [scope ! col], True, True)])
           else Inl IndexError))"

text \<open>Lines 186-199.\<close>

definition handle_naive_factorization ::
  "(ndarray \<Rightarrow> nat list \<Rightarrow> error + ndarray) \<Rightarrow> 'l heap \<Rightarrow> task list \<Rightarrow> task
   \<Rightarrow> error + ('l heap \<times> task list)" where
  "handle_naive_factorization data_slicer h tasks t =
     (case t of (local_data, parent, children_pos, scope, no_clusters, no_independencies) \<Rightarrow>
        let node = length h;
            h1 = h @ [extend_scope scope new_Product]
        in
        (case set_child h1 parent children_pos node of
           Inl e \<Rightarrow> Inl e
         | Inr h2 \<Rightarrow>
             factorize_columns data_slicer local_data scope node [0..<length scope] (h2, tasks)))"

text \<open>Lines 201-205.\<close>

definition handle_create_leaf ::
  "'c \<Rightarrow> (ndarray \<Rightarrow> 'c \<Rightarrow> scope \<Rightarrow> 'l) \<Rightarrow> 'l heap \<Rightarrow> task list \<Rightarrow> task
   \<Rightarrow> error + ('l heap \<times> task list)" where
  "handle_create_leaf ds_context create_leaf h tasks t =
     (case t of (local_data, parent, children_pos, scope, no_clusters, no_independencies) \<Rightarrow>
        let node = length h;
            h1 = h @ [Leaf (create_leaf local_data ds_context scope)]
        in
        (case set_child h1 parent children_pos node of
           Inl e \<Rightarrow> Inl e
         | Inr h2 \<Rightarrow> Inr (h2, tasks)))"

subsection \<open>The worklist loop\<close>

text \<open>
  The branch on the operation, lines 112-213.  The five constructors are all the values
  of the enumeration, so the final \<^verbatim>\<open>else\<close> of the source has no counterpart.
\<close>

definition dispatch ::
  "'c \<Rightarrow> (ndarray \<Rightarrow> 'c \<Rightarrow> scope \<Rightarrow> slices) \<Rightarrow> (ndarray \<Rightarrow> 'c \<Rightarrow> scope \<Rightarrow> slices)
   \<Rightarrow> (ndarray \<Rightarrow> 'c \<Rightarrow> scope \<Rightarrow> 'l) \<Rightarrow> (ndarray \<Rightarrow> nat list \<Rightarrow> error + ndarray)
   \<Rightarrow> 'l heap \<Rightarrow> task list \<Rightarrow> task \<Rightarrow> op_result \<Rightarrow> error + ('l heap \<times> task list)" where
  "dispatch ds_context split_rows split_cols create_leaf data_slicer h tasks t decision =
     (case decision of
        Inl e \<Rightarrow> Inl e
      | Inr (operation, op_params) \<Rightarrow>
          (case operation of
             REMOVE_UNINFORMATIVE_FEATURES \<Rightarrow>
               handle_remove_uninformative_features data_slicer h tasks t op_params
           | SPLIT_ROWS \<Rightarrow> handle_split_rows ds_context split_rows h tasks t
           | SPLIT_COLUMNS \<Rightarrow> handle_split_columns ds_context split_cols h tasks t
           | NAIVE_FACTORIZATION \<Rightarrow> handle_naive_factorization data_slicer h tasks t
           | CREATE_LEAF \<Rightarrow> handle_create_leaf ds_context create_leaf h tasks t))"

text \<open>
  One iteration of \<^verbatim>\<open>while tasks\<close>, lines 104-213: pop the head task, ask the policy,
  run the handler.  The loop never pops an empty queue; the model answers IndexError,
  as \<^verbatim>\<open>popleft\<close> would.
\<close>

definition loop_body ::
  "'c \<Rightarrow> (ndarray \<Rightarrow> 'c \<Rightarrow> scope \<Rightarrow> slices) \<Rightarrow> (ndarray \<Rightarrow> 'c \<Rightarrow> scope \<Rightarrow> slices)
   \<Rightarrow> (ndarray \<Rightarrow> 'c \<Rightarrow> scope \<Rightarrow> 'l) \<Rightarrow> policy \<Rightarrow> (ndarray \<Rightarrow> nat list \<Rightarrow> error + ndarray)
   \<Rightarrow> 'l heap \<times> task list \<Rightarrow> error + ('l heap \<times> task list)" where
  "loop_body ds_context split_rows split_cols create_leaf next_op data_slicer st =
     (case st of (h, queue) \<Rightarrow>
        (case queue of
           [] \<Rightarrow> Inl IndexError
         | t # tasks \<Rightarrow>
             (case t of (local_data, parent, children_pos, scope, no_clusters, no_independencies) \<Rightarrow>
                dispatch ds_context split_rows split_cols create_leaf data_slicer h tasks t
                  (next_op local_data scope no_clusters no_independencies (parent = root)))))"

text \<open>
  The \<^verbatim>\<open>while tasks\<close> loop.  It need not end: \<open>None\<close> is a loop that runs forever,
  \<open>Some (Inl e)\<close> a raised exception, \<open>Some (Inr h)\<close> the heap when the queue is empty.
\<close>

partial_function (option) run_tasks ::
  "'c \<Rightarrow> (ndarray \<Rightarrow> 'c \<Rightarrow> scope \<Rightarrow> slices) \<Rightarrow> (ndarray \<Rightarrow> 'c \<Rightarrow> scope \<Rightarrow> slices)
   \<Rightarrow> (ndarray \<Rightarrow> 'c \<Rightarrow> scope \<Rightarrow> 'l) \<Rightarrow> policy \<Rightarrow> (ndarray \<Rightarrow> nat list \<Rightarrow> error + ndarray)
   \<Rightarrow> 'l heap \<times> task list \<Rightarrow> (error + 'l heap) option" where
  "run_tasks ds_context split_rows split_cols create_leaf next_op data_slicer st =
     (if snd st = [] then Some (Inr (fst st))
      else
        (case loop_body ds_context split_rows split_cols create_leaf next_op data_slicer st of
           Inl e \<Rightarrow> Some (Inl e)
         | Inr st' \<Rightarrow>
             run_tasks ds_context split_rows split_cols create_leaf next_op data_slicer st'))"

declare run_tasks.simps [code]

text \<open>\<^verbatim>\<open>root.children[0]\<close> at line 215.\<close>

definition root_child :: "'l heap \<Rightarrow> error + ref option" where
  "root_child h =
     (if root < length h then
        (case children (h ! root) of
           [] \<Rightarrow> Inl IndexError
         | c # cs \<Rightarrow> Inr c)
      else Inl AttributeError)"

text \<open>
  Lines 215-222.  \<^verbatim>\<open>assign_ids\<close>, \<^verbatim>\<open>Prune\<close> and \<^verbatim>\<open>is_valid\<close> are imported from
  other modules and are parameters here: \<^verbatim>\<open>assign_ids\<close> changes the objects in place,
  \<^verbatim>\<open>Prune\<close> returns a node (with the heap it has rebuilt), \<^verbatim>\<open>is_valid\<close> returns a
  verdict and a message.  A failed \<^verbatim>\<open>assert\<close> raises AssertionError.
\<close>

definition post_process ::
  "('l heap \<Rightarrow> ref option \<Rightarrow> 'l heap) \<Rightarrow> ('l heap \<Rightarrow> ref option \<Rightarrow> 'l heap \<times> ref option)
   \<Rightarrow> ('l heap \<Rightarrow> ref option \<Rightarrow> bool \<times> string) \<Rightarrow> 'l heap
   \<Rightarrow> error + ('l heap \<times> ref option)" where
  "post_process assign_ids Prune is_valid h =
     (case root_child h of
        Inl e \<Rightarrow> Inl e
      | Inr node \<Rightarrow>
          let h1 = assign_ids h node;
              pruned = Prune h1 node;
              verdict = is_valid (fst pruned) (snd pruned)
          in if fst verdict then Inr pruned else Inl AssertionError)"

text \<open>
  \<^verbatim>\<open>learn_structure\<close>.  An argument that may be None is an option, and each of the
  six \<^verbatim>\<open>assert\<close> statements of lines 86-91 raises AssertionError (asserts are taken as
  enabled); \<^verbatim>\<open>initial_scope\<close> defaults to \<^verbatim>\<open>list(range(dataset.shape[1]))\<close>.  The result
  is \<open>None\<close> when the loop does not end, else the exception raised or the returned node
  with the heap it lives in.
\<close>

definition learn_structure ::
  "ndarray option \<Rightarrow> 'c option \<Rightarrow> (ndarray \<Rightarrow> 'c \<Rightarrow> scope \<Rightarrow> slices) option
   \<Rightarrow> (ndarray \<Rightarrow> 'c \<Rightarrow> scope \<Rightarrow> slices) option \<Rightarrow> (ndarray \<Rightarrow> 'c \<Rightarrow> scope \<Rightarrow> 'l) option
   \<Rightarrow> policy option \<Rightarrow> scope option \<Rightarrow> (ndarray \<Rightarrow> nat list \<Rightarrow> error + ndarray)
   \<Rightarrow> ('l heap \<Rightarrow> ref option \<Rightarrow> 'l heap) \<Rightarrow> ('l heap \<Rightarrow> ref option \<Rightarrow> 'l heap \<times> ref option)
   \<Rightarrow> ('l heap \<Rightarrow> ref option \<Rightarrow> bool \<times> string)
   \<Rightarrow> (error + ('l heap \<times> ref option)) option" where
  "learn_structure dataset ds_context split_rows split_cols create_leaf next_op initial_scope
       data_slicer assign_ids Prune is_valid =
     (case dataset of
        None \<Rightarrow> Some (Inl AssertionError)
      | Some dataset' \<Rightarrow>
     (case ds_context of
        None \<Rightarrow> Some (Inl AssertionError)
      | Some ds_context' \<Rightarrow>
     (case split_rows of
        None \<Rightarrow> Some (Inl AssertionError)
      | Some split_rows' \<Rightarrow>
     (case split_cols of
        None \<Rightarrow> Some (Inl AssertionError)
      | Some split_cols' \<Rightarrow>
     (case create_leaf of
        None \<Rightarrow> Some (Inl AssertionError)
      | Some create_leaf' \<Rightarrow>
     (case next_op of
        None \<Rightarrow> Some (Inl AssertionError)
      | Some next_op' \<Rightarrow>
        let scope0 = (case initial_scope of
                        None \<Rightarrow> [0..<shape1 dataset']
                      | Some s \<Rightarrow> s)
        in
        (case run_tasks ds_context' split_rows' split_cols' create_leaf' next_op' data_slicer
                (initial_heap, [(dataset', root, 0, scope0, False, False)]) of
           None \<Rightarrow> None
         | Some (Inl e) \<Rightarrow> Some (Inl e)
         | Some (Inr h) \<Rightarrow> Some (post_process assign_ids Prune is_valid h))))))))"

section \<open>Invariants of the heap\<close>

text \<open>A Sum node is aligned when it has as many weights as child slots.\<close>


fun sum_aligned :: "'l node \<Rightarrow> bool" where
  "sum_aligned (Sum s cs ws) = (length ws = length cs)"
| "sum_aligned (Product s cs) = True"
| "sum_aligned (Leaf l) = True"

fun is_product :: "'l node \<Rightarrow> bool" where
  "is_product (Product s cs) = True"
| "is_product (Sum s cs ws) = False"
| "is_product (Leaf l) = False"

text \<open>
  While a handler fills the Product node it has created: the node is in the heap, is a
  Product, and every Sum node of the heap is aligned.
\<close>

definition prod_inv :: "'l heap \<Rightarrow> ref \<Rightarrow> bool" where
  "prod_inv h node = (node < length h \<and> is_product (h ! node) \<and> list_all sum_aligned h)"

text \<open>
  The slot of the synthetic root: the root is a Product with the one slot \<open>c\<close>.  While
  the slot is empty, a task for the root is in the queue.
\<close>

definition root_slot :: "'l heap \<Rightarrow> ref option \<Rightarrow> bool" where
  "root_slot h c = (h \<noteq> [] \<and> (\<exists>s. h ! root = Product s [c]))"

definition root_inv :: "'l heap \<times> task list \<Rightarrow> bool" where
  "root_inv st =
     (\<exists>c. root_slot (fst st) c \<and> (c = None \<longrightarrow> list_ex (\<lambda>t. fst (snd t) = root) (snd st)))"

text \<open>What one handler does to the root's slot and to the queue.\<close>

definition root_step ::
  "'l heap \<Rightarrow> task list \<Rightarrow> ref \<Rightarrow> ref option \<Rightarrow> 'l heap \<Rightarrow> task list \<Rightarrow> bool" where
  "root_step h ts p c h' ts' =
     ((\<exists>new. ts' = ts @ new)
      \<and> (\<exists>c'. root_slot h' c' \<and> (c \<noteq> None \<longrightarrow> c' \<noteq> None)
             \<and> (p = root \<longrightarrow> c' \<noteq> None \<or> list_ex (\<lambda>t. fst (snd t) = root) ts')))"

text \<open>
  What an iteration that creates a node does to the parent of its task: the parent keeps
  its kind, its scope and its weights, and its slot \<open>pos\<close> holds the new node, whose
  reference is the old length of the heap.
\<close>

definition slot_filled :: "'l heap \<Rightarrow> ref \<Rightarrow> nat \<Rightarrow> 'l heap \<Rightarrow> bool" where
  "slot_filled h p pos h' =
     (case h ! p of
        Sum s cs ws \<Rightarrow> pos < length cs \<and> h' ! p = Sum s (cs[pos := Some (length h)]) ws
      | Product s cs \<Rightarrow> pos < length cs \<and> h' ! p = Product s (cs[pos := Some (length h)])
      | Leaf l \<Rightarrow> False)"

text \<open>
  The two shapes of an iteration on the task \<open>(d, p, pos, sc, nc, ni)\<close>.  Either no node
  is created: the heap is unchanged and the task is enqueued again with the same slice,
  parent, slot and scope.  Or one node is created: every old node but the parent is
  unchanged, the parent is changed as \<open>slot_filled\<close> says, the queue keeps its other
  tasks in order, and the tasks enqueued are all for the new node.
\<close>

definition step_shape :: "'l heap \<Rightarrow> task list \<Rightarrow> task \<Rightarrow> 'l heap \<Rightarrow> task list \<Rightarrow> bool" where
  "step_shape h ts t h' ts' =
     (case t of (d, p, pos, sc, nc, ni) \<Rightarrow>
        (h' = h \<and> (ts' = ts @ [(d, p, pos, sc, True, False)]
                   \<or> ts' = ts @ [(d, p, pos, sc, False, True)]))
        \<or> (length h' = Suc (length h) \<and> p < length h
           \<and> (\<forall>b < length h. b \<noteq> p \<longrightarrow> h' ! b = h ! b)
           \<and> slot_filled h p pos h'
           \<and> (\<exists>new. ts' = ts @ new \<and> list_all (\<lambda>t'. fst (snd t') = length h) new)))"

text \<open>
  A Sum node is still the same Sum node: same scope, same weights, as many slots.
\<close>

fun same_sum :: "'l node \<Rightarrow> 'l node \<Rightarrow> bool" where
  "same_sum (Sum s cs ws) (Sum s' cs' ws') = (s' = s \<and> ws' = ws \<and> length cs' = length cs)"
| "same_sum (Sum s cs ws) (Product s' cs') = False"
| "same_sum (Sum s cs ws) (Leaf l) = False"
| "same_sum (Product s cs) n = True"
| "same_sum (Leaf l) n = True"

text \<open>A later heap: it has the nodes of the earlier one, each Sum node still the same.\<close>

definition heap_extends :: "'l heap \<Rightarrow> 'l heap \<Rightarrow> bool" where
  "heap_extends h h' = (length h \<le> length h' \<and> (\<forall>b < length h. same_sum (h ! b) (h' ! b)))"

text \<open>The loops of the handlers touch the new node only and enqueue tasks for it only.\<close>

definition loop_frame ::
  "ref \<Rightarrow> 'l heap \<Rightarrow> task list \<Rightarrow> 'l heap \<Rightarrow> task list \<Rightarrow> bool" where
  "loop_frame node h ts h' ts' =
     (length h' = length h \<and> (\<forall>b. b \<noteq> node \<longrightarrow> h' ! b = h ! b)
      \<and> (\<exists>new. ts' = ts @ new \<and> list_all (\<lambda>t'. fst (snd t') = node) new))"

text \<open>
  The states of the \<^verbatim>\<open>while tasks\<close> loop: those reached from a state by iterations
  that raise nothing.
\<close>

inductive loop_reaches ::
  "'c \<Rightarrow> (ndarray \<Rightarrow> 'c \<Rightarrow> scope \<Rightarrow> slices) \<Rightarrow> (ndarray \<Rightarrow> 'c \<Rightarrow> scope \<Rightarrow> slices)
   \<Rightarrow> (ndarray \<Rightarrow> 'c \<Rightarrow> scope \<Rightarrow> 'l) \<Rightarrow> policy \<Rightarrow> (ndarray \<Rightarrow> nat list \<Rightarrow> error + ndarray)
   \<Rightarrow> 'l heap \<times> task list \<Rightarrow> 'l heap \<times> task list \<Rightarrow> bool"
  for ds_context split_rows split_cols create_leaf next_op data_slicer
  where
    start: "loop_reaches ds_context split_rows split_cols create_leaf next_op data_slicer st st"
  | iterate:
      "loop_reaches ds_context split_rows split_cols create_leaf next_op data_slicer st st'
       \<Longrightarrow> loop_body ds_context split_rows split_cols create_leaf next_op data_slicer st'
           = Inr st''
       \<Longrightarrow> loop_reaches ds_context split_rows split_cols create_leaf next_op data_slicer
             st st''"

text \<open>
  The tasks whose parent is the synthetic root: at most one is in the queue, and it is
  the task \<^verbatim>\<open>learn_structure\<close> starts with (the dataset, slot 0, the initial scope),
  whatever its flags.
\<close>

definition root_lineage :: "ndarray \<Rightarrow> scope \<Rightarrow> 'l heap \<times> task list \<Rightarrow> bool" where
  "root_lineage dataset scope0 st =
     (fst st \<noteq> []
      \<and> length (filter (\<lambda>t. fst (snd t) = root) (snd st)) \<le> 1
      \<and> list_all (\<lambda>t. fst (snd t) = root \<longrightarrow>
                      fst t = dataset \<and> fst (snd (snd t)) = 0
                      \<and> fst (snd (snd (snd t))) = scope0) (snd st))"

section \<open>Example inputs\<close>

text \<open>
  Concrete datasets and collaborators on which the theorems below are run.  A dataset of
  two rows whose two columns both vary:
\<close>

definition two_varying_columns :: ndarray where
  "two_varying_columns = \<lparr>shape0 = 2, columns = [[0, 1], [1, 0]]\<rparr>"

text \<open>Its two rows, as a row split returns them.\<close>

definition upper_row :: ndarray where
  "upper_row = \<lparr>shape0 = 1, columns = [[0], [1]]\<rparr>"

definition lower_row :: ndarray where
  "lower_row = \<lparr>shape0 = 1, columns = [[1], [0]]\<rparr>"

text \<open>A split that finds no structure: it returns the one triple of its whole input.\<close>

definition single_slice :: "ndarray \<Rightarrow> 'c \<Rightarrow> scope \<Rightarrow> slices" where
  "single_slice data ds_context scope = [(data, scope, 1)]"

text \<open>A row split into two clusters with the proportions 0.3 and 0.7.\<close>

definition two_clusters :: "ndarray \<Rightarrow> 'c \<Rightarrow> scope \<Rightarrow> slices" where
  "two_clusters data ds_context scope = [(upper_row, scope, 3 / 10), (lower_row, scope, 7 / 10)]"

text \<open>A leaf that records the slice and the scope it was created for.\<close>

definition keep_leaf :: "ndarray \<Rightarrow> 'c \<Rightarrow> scope \<Rightarrow> ndarray \<times> scope" where
  "keep_leaf data ds_context scope = (data, scope)"

text \<open>
  The heap at the end of the run on \<open>two_varying_columns\<close> with \<open>two_clusters\<close>: the
  root, the Sum node, one Product per cluster and one leaf per cluster and column.
\<close>

definition scenario_heap :: "(ndarray \<times> scope) heap" where
  "scenario_heap =
     [Product [] [Some 1],
      Sum [0, 1] [Some 2, Some 3] [3 / 10, 7 / 10],
      Product [0, 1] [Some 4, Some 5],
      Product [0, 1] [Some 6, Some 7],
      Leaf (\<lparr>shape0 = 1, columns = [[0]]\<rparr>, [0]),
      Leaf (\<lparr>shape0 = 1, columns = [[1]]\<rparr>, [1]),
      Leaf (\<lparr>shape0 = 1, columns = [[1]]\<rparr>, [0]),
      Leaf (\<lparr>shape0 = 1, columns = [[0]]\<rparr>, [1])]"

text \<open>A constant column followed by two varying ones.\<close>

definition three_columns :: ndarray where
  "three_columns = \<lparr>shape0 = 2, columns = [[5, 5], [0, 1], [1, 0]]\<rparr>"

text \<open>
  Four rows: column 0 is constant, column 1 is constant on each half of the rows, and
  column 2 varies on each half.
\<close>

definition four_rows :: ndarray where
  "four_rows = \<lparr>shape0 = 4, columns = [[5, 5, 5, 5], [0, 0, 1, 1], [0, 1, 0, 1]]\<rparr>"

text \<open>A row split into the first and the second half of the rows.\<close>

definition split_halves :: "ndarray \<Rightarrow> 'c \<Rightarrow> scope \<Rightarrow> slices" where
  "split_halves data ds_context scope =
     (let k = shape0 data div 2 in
      [(\<lparr>shape0 = k, columns = map (take k) (columns data)\<rparr>, scope, 1 / 2),
       (\<lparr>shape0 = shape0 data - k, columns = map (drop k) (columns data)\<rparr>, scope, 1 / 2)])"

text \<open>The heap at the end of the run on \<open>four_rows\<close> with \<open>split_halves\<close>.\<close>

definition four_rows_heap :: "(ndarray \<times> scope) heap" where
  "four_rows_heap =
     [Product [] [Some 1],
      Product [0, 1, 2] [Some 2, Some 3],
      Leaf (\<lparr>shape0 = 4, columns = [[5, 5, 5, 5]]\<rparr>, [0]),
      Sum [1, 2] [Some 4, Some 5] [1 / 2, 1 / 2],
      Product [1, 2] [Some 6, Some 7],
      Product [1, 2] [Some 8, Some 9],
      Leaf (\<lparr>shape0 = 2, columns = [[0, 0]]\<rparr>, [1]),
      Leaf (\<lparr>shape0 = 2, columns = [[0, 1]]\<rparr>, [1]),
      Leaf (\<lparr>shape0 = 2, columns = [[1, 1]]\<rparr>, [1]),
      Leaf (\<lparr>shape0 = 2, columns = [[0, 1]]\<rparr>, [1])]"

text \<open>
  Four rows and two columns that vary on each half of the rows, and a column split that
  puts every column in a group of its own.
\<close>

definition mixed_rows :: ndarray where
  "mixed_rows = \<lparr>shape0 = 4, columns = [[0, 1, 0, 1], [0, 1, 1, 0]]\<rparr>"

definition split_each_column :: "ndarray \<Rightarrow> 'c \<Rightarrow> scope \<Rightarrow> slices" where
  "split_each_column data ds_context scope =
     map (\<lambda>i. (\<lparr>shape0 = shape0 data, columns = [columns data ! i]\<rparr>, [scope ! i], 0))
       [0..<length scope]"

text \<open>
  The heap at the end of the run on \<open>mixed_rows\<close> with \<open>split_halves\<close> and
  \<open>split_each_column\<close>.
\<close>

definition mixed_rows_heap :: "(ndarray \<times> scope) heap" where
  "mixed_rows_heap =
     [Product [] [Some 1],
      Sum [0, 1] [Some 2, Some 3] [1 / 2, 1 / 2],
      Product [0, 1] [Some 4, Some 5],
      Product [0, 1] [Some 6, Some 7],
      Leaf (\<lparr>shape0 = 2, columns = [[0, 1]]\<rparr>, [0]),
      Leaf (\<lparr>shape0 = 2, columns = [[0, 1]]\<rparr>, [1]),
      Leaf (\<lparr>shape0 = 2, columns = [[0, 1]]\<rparr>, [0]),
      Leaf (\<lparr>shape0 = 2, columns = [[1, 0]]\<rparr>, [1])]"

text \<open>
  Stand-ins for the post-processing collaborators: no identifiers, no pruning, a check
  that always succeeds and one that always fails.
\<close>

definition no_ids :: "'l heap \<Rightarrow> ref option \<Rightarrow> 'l heap" where
  "no_ids h node = h"

definition no_pruning :: "'l heap \<Rightarrow> ref option \<Rightarrow> 'l heap \<times> ref option" where
  "no_pruning h node = (h, node)"

definition always_valid :: "'l heap \<Rightarrow> ref option \<Rightarrow> bool \<times> string" where
  "always_valid h node = (True, [])"

definition never_valid :: "'l heap \<Rightarrow> ref option \<Rightarrow> bool \<times> string" where
  "never_valid h node = (False, ''invalid'')"

text \<open>
  The states of the run on \<open>two_varying_columns\<close> with single-result splits and a floor
  of one row: the queue holds the root task alone, with at most one flag set.
\<close>

definition in_cycle ::
  "(ndarray \<Rightarrow> 'c \<Rightarrow> scope \<Rightarrow> slices) \<Rightarrow> (ndarray \<Rightarrow> 'c \<Rightarrow> scope \<Rightarrow> slices) \<Rightarrow> policy
   \<Rightarrow> 'l heap \<times> task list \<Rightarrow> bool" where
  "in_cycle split_rows split_cols next_op st =
     (split_rows = single_slice \<and> split_cols = single_slice \<and> next_op = get_next_operation 1
      \<and> (\<exists>nc ni. snd st = [(two_varying_columns, root, 0, [0, 1], nc, ni)] \<and> \<not> (nc \<and> ni)))"



section \<open>Properties of the policy\<close>









lemma np_var_55: "np_var [5, 5] = Some 0"
  by (simp add: np_var_def np_mean_def)


lemma np_var_01: "np_var [0, 1] = Some (1 / 4)"
  by (simp add: np_var_def np_mean_def power2_eq_square)



text \<open>
  C7: for a scope of length one and a slice with at most \<open>min_instances_slice\<close> rows the
  policy answers CREATE_LEAF with no auxiliary parameter, whatever the five flags are.
\<close>

theorem single_column_few_rows_create_leaf:
  assumes "length scope = 1"
    and "int (shape0 data) \<le> min_instances_slice"
  shows "next_operation min_instances_slice data scope no_clusters no_independencies is_first
           cluster_first cluster_univariate = Inr (CREATE_LEAF, None)"
  using assms by (simp add: next_operation_def next_operation_with_def)

theorem single_column_few_rows_create_leaf_witness:
  "length [7 :: nat] = 1 \<and> int (shape0 \<lparr>shape0 = 2, columns = [[0, 1]]\<rparr>) \<le> 100
   \<and> next_operation 100 \<lparr>shape0 = 2, columns = [[0, 1]]\<rparr> [7] False False True True True
       = Inr (CREATE_LEAF, None)"
proof -
  have a: "length [7 :: nat] = 1" by simp
  have b: "int (shape0 \<lparr>shape0 = 2, columns = [[0, 1]]\<rparr>) \<le> 100" by simp
  show ?thesis
    using a b single_column_few_rows_create_leaf [OF a b, of False False True True True]
    by simp
qed

section \<open>Properties of the builder\<close>

lemma new_node_simps [simp]:
  "extend_scope scope new_Product = Product scope []"
  "extend_scope scope new_Sum = Sum scope [] []"
  "add_child new_Product = Product [] [None]"
  by (simp_all add: new_Product_def new_Sum_def)

lemma set_child_Inr:
  assumes "set_child h p pos n = Inr h'"
  shows "length h' = length h" and "p < length h" and "pos < length (children (h ! p))"
    and "\<And>a. a \<noteq> p \<Longrightarrow> h' ! a = h ! a"
  using assms by (auto simp: set_child_def split: if_splits node.splits)

lemma set_child_aligned:
  assumes "set_child h p pos n = Inr h'" and "list_all sum_aligned h"
  shows "list_all sum_aligned h'"
proof -
  have p: "p < length h" using set_child_Inr(2) [OF assms(1)] .
  have "sum_aligned (h ! p)" using assms(2) p by (simp add: list_all_length)
  then have "sum_aligned (h' ! p)"
    using assms(1) p by (auto simp: set_child_def split: if_splits node.splits)
  moreover have "\<And>a. a \<noteq> p \<Longrightarrow> a < length h \<Longrightarrow> sum_aligned (h' ! a)"
    using set_child_Inr(4) [OF assms(1)] assms(2) by (simp add: list_all_length)
  ultimately show ?thesis
    using set_child_Inr(1) [OF assms(1)] by (auto simp: list_all_length) metis
qed

lemma set_child_fresh:
  assumes "set_child (h @ [nd]) p pos (length h) = Inr h'" and "children nd = []"
  shows "h' ! length h = nd" and "length h' = Suc (length h)" and "p < length h"
proof -
  have "p \<noteq> length h"
    using assms by (auto simp: set_child_def split: if_splits node.splits)
  moreover have "p < Suc (length h)" using set_child_Inr(2) [OF assms(1)] by simp
  ultimately show "p < length h" by simp
  then show "h' ! length h = nd"
    using set_child_Inr(4) [OF assms(1), of "length h"] by simp
  show "length h' = Suc (length h)" using set_child_Inr(1) [OF assms(1)] by simp
qed

lemma enqueue_row_slices_closed:
  assumes "node < length h" and "h ! node = Sum s cs ws"
  shows "enqueue_row_slices node scope sl (h, tasks) =
     (h[node := Sum s (cs @ replicate (length sl) None) (ws @ map (\<lambda>t. snd (snd t)) sl)],
      tasks @ map (\<lambda>i. (fst (sl ! i), node, length cs + i, scope, False, False)) [0..<length sl])"
  using assms
proof (induction sl arbitrary: h tasks cs ws)
  case Nil
  have "h[node := h ! node] = h" by (rule list_update_id)
  then show ?case using Nil.prems(2) by simp
next
  case (Cons t sl)
  obtain d sc w where t: "t = (d, sc, w)" by (cases t)
  let ?h2 = "h[node := Sum s (cs @ [None]) (ws @ [w])]"
  have h2: "append_weight (append_child h node) node w = ?h2"
    using Cons.prems by (simp add: append_weight_def append_child_def)
  have n2: "node < length ?h2" using Cons.prems by simp
  have v2: "?h2 ! node = Sum s (cs @ [None]) (ws @ [w])" using Cons.prems by simp
  have ls: "last_slot ?h2 node = length cs" by (simp add: last_slot_def v2)
  have step: "enqueue_row_slices node scope (t # sl) (h, tasks)
              = enqueue_row_slices node scope sl
                  (?h2, tasks @ [(d, node, length cs, scope, False, False)])"
    by (simp add: t Let_def h2 ls)
  have m: "map (\<lambda>i. (fst ((t # sl) ! i), node, length cs + i, scope, False, False)) [0..<length (t # sl)]
        = (d, node, length cs, scope, False, False) #
          map (\<lambda>i. (fst (sl ! i), node, length (cs @ [None]) + i, scope, False, False)) [0..<length sl]"
  proof -
    have u: "[0..<length (t # sl)] = 0 # map Suc [0..<length sl]"
      by (simp add: upt_conv_Cons map_Suc_upt del: upt_Suc)
    show ?thesis unfolding u by (simp add: t o_def)
  qed
  show ?case
    unfolding m step
    using Cons.IH [OF n2 v2, of "tasks @ [(d, node, length cs, scope, False, False)]"]
    by (simp add: t)
qed


lemma append_child_prod_inv:
  assumes "prod_inv h node"
  shows "prod_inv (append_child h node) node" and "length (append_child h node) = length h"
proof -
  obtain s cs where nd: "h ! node = Product s cs"
    using assms by (cases "h ! node") (auto simp: prod_inv_def)
  have eq: "append_child h node = h[node := Product s (cs @ [None])]"
    by (simp add: append_child_def nd)
  show "length (append_child h node) = length h" by (simp add: eq)
  have "\<And>a. a < length h \<Longrightarrow> sum_aligned (h[node := Product s (cs @ [None])] ! a)"
    using assms by (simp add: prod_inv_def list_all_length nth_list_update)
  then show "prod_inv (append_child h node) node"
    using assms by (simp add: prod_inv_def eq list_all_length)
qed

lemma factorize_columns_inv:
  assumes "factorize_columns data_slicer d sc node cols (h, ts) = Inr (h', ts')"
    and "prod_inv h node"
  shows "prod_inv h' node \<and> length h' = length h"
  using assms
proof (induction cols arbitrary: h ts)
  case Nil
  then show ?case by simp
next
  case (Cons col cols)
  from Cons.prems(1) obtain slice where
    rec: "factorize_columns data_slicer d sc node cols
            (append_child h node,
             ts @ [(slice, node, last_slot (append_child h node) node, [sc ! col], True, True)])
          = Inr (h', ts')"
    by (auto simp: Let_def split: sum.splits if_splits)
  show ?case
    using Cons.IH [OF rec append_child_prod_inv(1) [OF Cons.prems(2)]]
      append_child_prod_inv(2) [OF Cons.prems(2)] by simp
qed

lemma remove_columns_inv:
  assumes "remove_columns data_slicer d sc node cols (h, ts, rest) = Inr (h', ts', rest')"
    and "prod_inv h node"
  shows "prod_inv h' node \<and> length h' = length h"
  using assms
proof (induction cols arbitrary: h ts rest)
  case Nil
  then show ?case by simp
next
  case (Cons col cols)
  from Cons.prems(1) obtain slice where
    rec: "remove_columns data_slicer d sc node cols
            (append_child h node,
             ts @ [(slice, node, last_slot (append_child h node) node, [sc ! col], True, True)],
             removeAll col rest)
          = Inr (h', ts', rest')"
    by (auto simp: Let_def split: sum.splits if_splits)
  show ?case
    using Cons.IH [OF rec append_child_prod_inv(1) [OF Cons.prems(2)]]
      append_child_prod_inv(2) [OF Cons.prems(2)] by simp
qed

lemma enqueue_col_slices_inv:
  assumes "enqueue_col_slices node sl (h, ts) = (h', ts')"
    and "prod_inv h node"
  shows "prod_inv h' node \<and> length h' = length h"
  using assms
proof (induction sl arbitrary: h ts)
  case Nil
  then show ?case by simp
next
  case (Cons t sl)
  obtain d sc w where t: "t = (d, sc, w)" by (cases t)
  from Cons.prems(1) have
    rec: "enqueue_col_slices node sl
            (append_child h node,
             ts @ [(d, node, last_slot (append_child h node) node, sc, False, False)])
          = (h', ts')"
    by (simp add: t Let_def)
  show ?case
    using Cons.IH [OF rec append_child_prod_inv(1) [OF Cons.prems(2)]]
      append_child_prod_inv(2) [OF Cons.prems(2)] by simp
qed

lemma fresh_product_inv:
  assumes "set_child (h @ [Product sc []]) p pos (length h) = Inr h2"
    and "list_all sum_aligned h"
  shows "prod_inv h2 (length h)" and "length h2 = Suc (length h)"
proof -
  have al: "list_all sum_aligned (h @ [Product sc []])" using assms(2) by simp
  have "h2 ! length h = Product sc []"
    using set_child_fresh(1) [OF assms(1)] by simp
  moreover show "length h2 = Suc (length h)"
    using set_child_fresh(2) [OF assms(1)] by simp
  ultimately show "prod_inv h2 (length h)"
    using set_child_aligned [OF assms(1) al] by (simp add: prod_inv_def)
qed


lemma handle_naive_factorization_inv:
  assumes "handle_naive_factorization data_slicer h ts (d, p, pos, sc, nc, ni) = Inr (h', ts')"
    and "list_all sum_aligned h"
  shows "prod_inv h' (length h) \<and> length h' = Suc (length h)"
proof -
  from assms(1) obtain h2 where
    sc: "set_child (h @ [Product sc []]) p pos (length h) = Inr h2" and
    lp: "factorize_columns data_slicer d sc (length h) [0..<length sc] (h2, ts) = Inr (h', ts')"
    by (auto simp: handle_naive_factorization_def Let_def split: sum.splits)
  show ?thesis
    using factorize_columns_inv [OF lp fresh_product_inv(1) [OF sc assms(2)]]
      fresh_product_inv(2) [OF sc assms(2)] by simp
qed

lemma handle_remove_uninformative_features_inv:
  assumes "handle_remove_uninformative_features data_slicer h ts (d, p, pos, sc, nc, ni) prm
           = Inr (h', ts')"
    and "list_all sum_aligned h"
  shows "prod_inv h' (length h) \<and> length h' = Suc (length h)"
proof -
  from assms(1) obtain h2 cols h3 ts3 rest where
    sc: "set_child (h @ [Product sc []]) p pos (length h) = Inr h2" and
    lp: "remove_columns data_slicer d sc (length h) cols (h2, ts, [0..<length sc])
         = Inr (h3, ts3, rest)" and
    h': "h' = append_child h3 (length h)"
    by (auto simp: handle_remove_uninformative_features_def Let_def
        split: sum.splits option.splits)
  have i3: "prod_inv h3 (length h) \<and> length h3 = length h2"
    using remove_columns_inv [OF lp fresh_product_inv(1) [OF sc assms(2)]] .
  show ?thesis
    using append_child_prod_inv [of h3 "length h"] i3 fresh_product_inv(2) [OF sc assms(2)]
    by (simp add: h')
qed

lemma handle_split_columns_inv:
  assumes "handle_split_columns ctx split_cols h ts (d, p, pos, sc, nc, ni) = Inr (h', ts')"
    and "list_all sum_aligned h"
  shows "h' = h \<or> (prod_inv h' (length h) \<and> length h' = Suc (length h))"
proof (cases "length (split_cols d ctx sc) = 1")
  case True
  then show ?thesis using assms(1) by (simp add: handle_split_columns_def)
next
  case False
  with assms(1) obtain h2 where
    sc: "set_child (h @ [Product sc []]) p pos (length h) = Inr h2" and
    lp: "enqueue_col_slices (length h) (split_cols d ctx sc) (h2, ts) = (h', ts')"
    by (auto simp: handle_split_columns_def Let_def split: sum.splits)
  show ?thesis
    using enqueue_col_slices_inv [OF lp fresh_product_inv(1) [OF sc assms(2)]]
      fresh_product_inv(2) [OF sc assms(2)] by simp
qed

lemma handle_create_leaf_inv:
  assumes "handle_create_leaf ctx create_leaf h ts (d, p, pos, sc, nc, ni) = Inr (h', ts')"
    and "list_all sum_aligned h"
  shows "list_all sum_aligned h' \<and> length h' = Suc (length h)
         \<and> h' ! length h = Leaf (create_leaf d ctx sc)"
proof -
  let ?l = "Leaf (create_leaf d ctx sc)"
  from assms(1) have
    sc: "set_child (h @ [?l]) p pos (length h) = Inr h'"
    by (auto simp: handle_create_leaf_def Let_def split: sum.splits)
  have al: "list_all sum_aligned (h @ [?l])" using assms(2) by simp
  show ?thesis
    using set_child_aligned [OF sc al] set_child_fresh(1,2) [OF sc] by simp
qed

lemma handle_split_rows_closed:
  assumes "handle_split_rows ctx split_rows h ts (d, p, pos, sc, nc, ni) = Inr (h', ts')"
    and "length (split_rows d ctx sc) \<noteq> 1"
  shows "\<exists>h2. set_child (h @ [Sum sc [] []]) p pos (length h) = Inr h2
           \<and> h' = h2[length h := Sum sc (replicate (length (split_rows d ctx sc)) None)
                                   (map (\<lambda>t. snd (snd t)) (split_rows d ctx sc))]
           \<and> ts' = ts @ map (\<lambda>i. (fst (split_rows d ctx sc ! i), length h, i, sc, False, False))
                           [0..<length (split_rows d ctx sc)]"
proof -
  from assms obtain h2 where
    sc: "set_child (h @ [Sum sc [] []]) p pos (length h) = Inr h2" and
    lp: "enqueue_row_slices (length h) sc (split_rows d ctx sc) (h2, ts) = (h', ts')"
    by (auto simp: handle_split_rows_def Let_def split: sum.splits)
  have n: "length h < length h2" using set_child_fresh(2) [OF sc] by simp
  have v: "h2 ! length h = Sum sc [] []" using set_child_fresh(1) [OF sc] by simp
  show ?thesis
    using lp sc unfolding enqueue_row_slices_closed [OF n v] by simp
qed

lemma handle_split_rows_inv:
  assumes "handle_split_rows ctx split_rows h ts (d, p, pos, sc, nc, ni) = Inr (h', ts')"
    and "list_all sum_aligned h"
  shows "list_all sum_aligned h'"
proof (cases "length (split_rows d ctx sc) = 1")
  case True
  then show ?thesis using assms by (simp add: handle_split_rows_def)
next
  case False
  from handle_split_rows_closed [OF assms(1) False] obtain h2 where
    sc: "set_child (h @ [Sum sc [] []]) p pos (length h) = Inr h2" and
    h': "h' = h2[length h := Sum sc (replicate (length (split_rows d ctx sc)) None)
                               (map (\<lambda>t. snd (snd t)) (split_rows d ctx sc))]"
    by blast
  have al: "list_all sum_aligned (h @ [Sum sc [] []])" using assms(2) by simp
  have n: "length h < length h2" using set_child_fresh(2) [OF sc] by simp
  have "list_all sum_aligned h2" using set_child_aligned [OF sc al] .
  then show ?thesis
    using n by (auto simp: h' list_all_length nth_list_update)
qed

lemma loop_body_sum_aligned:
  assumes "loop_body ctx split_rows split_cols create_leaf next_op data_slicer (h, q)
           = Inr (h', q')"
    and "list_all sum_aligned h"
  shows "list_all sum_aligned h'"
proof -
  from assms(1) obtain d p pos sc nc ni ts operation prm where
    q: "q = (d, p, pos, sc, nc, ni) # ts" and
    dec: "next_op d sc nc ni (p = root) = Inr (operation, prm)"
    by (auto simp: loop_body_def dispatch_def split: list.splits sum.splits)
  show ?thesis
  proof (cases operation)
    case CREATE_LEAF
    then have "handle_create_leaf ctx create_leaf h ts (d, p, pos, sc, nc, ni) = Inr (h', q')"
      using assms(1) by (simp add: loop_body_def dispatch_def q dec)
    from handle_create_leaf_inv [OF this assms(2)] show ?thesis by simp
  next
    case SPLIT_COLUMNS
    then have "handle_split_columns ctx split_cols h ts (d, p, pos, sc, nc, ni) = Inr (h', q')"
      using assms(1) by (simp add: loop_body_def dispatch_def q dec)
    from handle_split_columns_inv [OF this assms(2)] show ?thesis
      using assms(2) by (auto simp: prod_inv_def)
  next
    case SPLIT_ROWS
    then have "handle_split_rows ctx split_rows h ts (d, p, pos, sc, nc, ni) = Inr (h', q')"
      using assms(1) by (simp add: loop_body_def dispatch_def q dec)
    from handle_split_rows_inv [OF this assms(2)] show ?thesis .
  next
    case NAIVE_FACTORIZATION
    then have "handle_naive_factorization data_slicer h ts (d, p, pos, sc, nc, ni) = Inr (h', q')"
      using assms(1) by (simp add: loop_body_def dispatch_def q dec)
    from handle_naive_factorization_inv [OF this assms(2)] show ?thesis
      by (simp add: prod_inv_def)
  next
    case REMOVE_UNINFORMATIVE_FEATURES
    then have "handle_remove_uninformative_features data_slicer h ts (d, p, pos, sc, nc, ni) prm
               = Inr (h', q')"
      using assms(1) by (simp add: loop_body_def dispatch_def q dec)
    from handle_remove_uninformative_features_inv [OF this assms(2)] show ?thesis
      by (simp add: prod_inv_def)
  qed
qed

lemma run_tasks_sum_aligned:
  assumes "run_tasks ctx split_rows split_cols create_leaf next_op data_slicer st = Some r"
  shows "list_all sum_aligned (fst st) \<longrightarrow> (\<forall>hf. r = Inr hf \<longrightarrow> list_all sum_aligned hf)"
proof (rule run_tasks.raw_induct
    [where P = "\<lambda>ctx split_rows split_cols create_leaf next_op data_slicer st r.
       list_all sum_aligned (fst st) \<longrightarrow> (\<forall>hf. r = Inr hf \<longrightarrow> list_all sum_aligned hf)",
     OF _ assms], goal_cases)
  case (1 run ctx split_rows split_cols create_leaf next_op data_slicer st r)
  note IH = "1"(1) and eq = "1"(2)
  show ?case
  proof (cases "snd st = []")
    case True
    then show ?thesis using eq by auto
  next
    case False
    show ?thesis
    proof (cases "loop_body ctx split_rows split_cols create_leaf next_op data_slicer st")
      case (Inl e)
      then show ?thesis using eq False by auto
    next
      case (Inr st')
      then have rec: "run ctx split_rows split_cols create_leaf next_op data_slicer st' = Some r"
        using eq False by simp
      have "list_all sum_aligned (fst st) \<Longrightarrow> list_all sum_aligned (fst st')"
        using loop_body_sum_aligned [of ctx split_rows split_cols create_leaf next_op data_slicer
            "fst st" "snd st" "fst st'" "snd st'"] Inr by simp
      then show ?thesis using IH [OF rec] by blast
    qed
  qed
qed

lemma same_sum_refl: "same_sum n n"
  by (cases n) auto

lemma same_sum_trans: "same_sum a b \<Longrightarrow> same_sum b c \<Longrightarrow> same_sum a c"
  by (cases a; cases b; cases c) auto

lemma heap_extends_refl: "heap_extends h h"
  by (simp add: heap_extends_def same_sum_refl)

lemma heap_extends_trans:
  "heap_extends a b \<Longrightarrow> heap_extends b c \<Longrightarrow> heap_extends a c"
  unfolding heap_extends_def
  by (meson le_trans less_le_trans same_sum_trans)

lemma loop_frame_refl: "loop_frame node h ts h ts"
  by (simp add: loop_frame_def)

lemma loop_frame_trans:
  "loop_frame node a ta b tb \<Longrightarrow> loop_frame node b tb c tc \<Longrightarrow> loop_frame node a ta c tc"
  by (auto simp: loop_frame_def)

lemma loop_frame_append_child:
  "loop_frame node h ts (append_child h node) (ts @ [(d, node, pos, sc, nc, ni)])"
  by (simp add: loop_frame_def append_child_def)

lemma loop_frame_append_weight:
  "loop_frame node h ts (append_weight h node w) ts"
  by (simp add: loop_frame_def append_weight_def)

lemma loop_frame_heap:
  "loop_frame node h ts h' ts' \<Longrightarrow> loop_frame node h ts0 h' ts0"
  by (simp add: loop_frame_def)

lemma enqueue_row_slices_loop_frame:
  "enqueue_row_slices node sc sl (h, ts) = (h', ts') \<Longrightarrow> loop_frame node h ts h' ts'"
proof (induction sl arbitrary: h ts)
  case Nil
  then show ?case by (simp add: loop_frame_refl)
next
  case (Cons t sl)
  obtain d s w where t: "t = (d, s, w)" by (cases t)
  let ?h1 = "append_child h node"
  let ?h2 = "append_weight ?h1 node w"
  let ?ts = "ts @ [(d, node, last_slot ?h2 node, sc, False, False)]"
  have rec: "enqueue_row_slices node sc sl (?h2, ?ts) = (h', ts')"
    using Cons.prems by (simp add: t Let_def)
  have a: "loop_frame node h ts ?h1 ?ts" by (rule loop_frame_append_child)
  have b: "loop_frame node ?h1 ?ts ?h2 ?ts" by (rule loop_frame_append_weight)
  from loop_frame_trans [OF loop_frame_trans [OF a b] Cons.IH [OF rec]]
  show ?case .
qed

lemma enqueue_col_slices_loop_frame:
  "enqueue_col_slices node sl (h, ts) = (h', ts') \<Longrightarrow> loop_frame node h ts h' ts'"
proof (induction sl arbitrary: h ts)
  case Nil
  then show ?case by (simp add: loop_frame_refl)
next
  case (Cons t sl)
  obtain d s w where t: "t = (d, s, w)" by (cases t)
  let ?h1 = "append_child h node"
  let ?ts = "ts @ [(d, node, last_slot ?h1 node, s, False, False)]"
  have rec: "enqueue_col_slices node sl (?h1, ?ts) = (h', ts')"
    using Cons.prems by (simp add: t Let_def)
  from loop_frame_trans [OF loop_frame_append_child Cons.IH [OF rec]]
  show ?case .
qed

lemma factorize_columns_loop_frame:
  "factorize_columns data_slicer d sc node cols (h, ts) = Inr (h', ts')
   \<Longrightarrow> loop_frame node h ts h' ts'"
proof (induction cols arbitrary: h ts)
  case Nil
  then show ?case by (simp add: loop_frame_refl)
next
  case (Cons col cols)
  from Cons.prems obtain slice where
    rec: "factorize_columns data_slicer d sc node cols
            (append_child h node,
             ts @ [(slice, node, last_slot (append_child h node) node, [sc ! col], True, True)])
          = Inr (h', ts')"
    by (auto simp: Let_def split: sum.splits if_splits)
  from loop_frame_trans [OF loop_frame_append_child Cons.IH [OF rec]]
  show ?case .
qed

lemma remove_columns_loop_frame:
  "remove_columns data_slicer d sc node cols (h, ts, rest) = Inr (h', ts', rest')
   \<Longrightarrow> loop_frame node h ts h' ts'"
proof (induction cols arbitrary: h ts rest)
  case Nil
  then show ?case by (simp add: loop_frame_refl)
next
  case (Cons col cols)
  from Cons.prems obtain slice where
    rec: "remove_columns data_slicer d sc node cols
            (append_child h node,
             ts @ [(slice, node, last_slot (append_child h node) node, [sc ! col], True, True)],
             removeAll col rest)
          = Inr (h', ts', rest')"
    by (auto simp: Let_def split: sum.splits if_splits)
  from loop_frame_trans [OF loop_frame_append_child Cons.IH [OF rec]]
  show ?case .
qed

lemma fill_then_loop:
  assumes sc: "set_child (h @ [nd]) p pos (length h) = Inr h2"
    and nd: "children nd = []"
    and lf: "loop_frame (length h) h2 ts h' ts'"
  shows "step_shape h ts (d, p, pos, scope, nc, ni) h' ts'"
proof -
  have p: "p < length h" using set_child_fresh(3) [OF sc nd] .
  have len2: "length h2 = Suc (length h)" using set_child_fresh(2) [OF sc nd] .
  have len: "length h' = Suc (length h)" using lf len2 by (simp add: loop_frame_def)
  have same: "\<And>b. b \<noteq> length h \<Longrightarrow> h' ! b = h2 ! b" using lf by (simp add: loop_frame_def)
  have old: "\<forall>b < length h. b \<noteq> p \<longrightarrow> h' ! b = h ! b"
    using same set_child_Inr(4) [OF sc] by (simp add: nth_append)
  have hp: "(h @ [nd]) ! p = h ! p" using p by (simp add: nth_append)
  have "slot_filled h p pos h2"
    using sc p hp by (auto simp: set_child_def slot_filled_def split: if_splits node.splits)
  then have "slot_filled h p pos h'"
    using same [of p] p by (auto simp: slot_filled_def split: node.splits)
  moreover have "\<exists>new. ts' = ts @ new \<and> list_all (\<lambda>t'. fst (snd t') = length h) new"
    using lf by (simp add: loop_frame_def)
  ultimately show ?thesis
    using len p old by (simp add: step_shape_def)
qed

lemma handle_split_rows_shape:
  assumes "handle_split_rows ctx split_rows h ts (d, p, pos, sc, nc, ni) = Inr (h', ts')"
  shows "step_shape h ts (d, p, pos, sc, nc, ni) h' ts'"
proof (cases "length (split_rows d ctx sc) = 1")
  case True
  then show ?thesis using assms by (auto simp: handle_split_rows_def step_shape_def)
next
  case False
  with assms obtain h2 where
    sc: "set_child (h @ [Sum sc [] []]) p pos (length h) = Inr h2" and
    lp: "enqueue_row_slices (length h) sc (split_rows d ctx sc) (h2, ts) = (h', ts')"
    by (auto simp: handle_split_rows_def Let_def split: sum.splits)
  from fill_then_loop [OF sc _ enqueue_row_slices_loop_frame [OF lp]] show ?thesis by simp
qed

lemma handle_split_columns_shape:
  assumes "handle_split_columns ctx split_cols h ts (d, p, pos, sc, nc, ni) = Inr (h', ts')"
  shows "step_shape h ts (d, p, pos, sc, nc, ni) h' ts'"
proof (cases "length (split_cols d ctx sc) = 1")
  case True
  then show ?thesis using assms by (auto simp: handle_split_columns_def step_shape_def)
next
  case False
  with assms obtain h2 where
    sc: "set_child (h @ [Product sc []]) p pos (length h) = Inr h2" and
    lp: "enqueue_col_slices (length h) (split_cols d ctx sc) (h2, ts) = (h', ts')"
    by (auto simp: handle_split_columns_def Let_def split: sum.splits)
  from fill_then_loop [OF sc _ enqueue_col_slices_loop_frame [OF lp]] show ?thesis by simp
qed

lemma handle_naive_factorization_shape:
  assumes "handle_naive_factorization data_slicer h ts (d, p, pos, sc, nc, ni) = Inr (h', ts')"
  shows "step_shape h ts (d, p, pos, sc, nc, ni) h' ts'"
proof -
  from assms obtain h2 where
    sc: "set_child (h @ [Product sc []]) p pos (length h) = Inr h2" and
    lp: "factorize_columns data_slicer d sc (length h) [0..<length sc] (h2, ts) = Inr (h', ts')"
    by (auto simp: handle_naive_factorization_def Let_def split: sum.splits)
  from fill_then_loop [OF sc _ factorize_columns_loop_frame [OF lp]] show ?thesis by simp
qed

lemma handle_remove_uninformative_features_shape:
  assumes "handle_remove_uninformative_features data_slicer h ts (d, p, pos, sc, nc, ni) prm
           = Inr (h', ts')"
  shows "step_shape h ts (d, p, pos, sc, nc, ni) h' ts'"
proof -
  from assms obtain h2 cols h3 ts3 rest slice where
    sc: "set_child (h @ [Product sc []]) p pos (length h) = Inr h2" and
    lp: "remove_columns data_slicer d sc (length h) cols (h2, ts, [0..<length sc])
         = Inr (h3, ts3, rest)" and
    h': "h' = append_child h3 (length h)" and
    ts': "ts' = ts3 @ [(slice, length h, last_slot h' (length h), rest,
                        length rest = 1, length rest = 1)]"
    by (auto simp: handle_remove_uninformative_features_def Let_def
        split: sum.splits option.splits)
  have "loop_frame (length h) h3 ts3 h' ts'"
    unfolding h' ts' by (rule loop_frame_append_child)
  from fill_then_loop [OF sc _ loop_frame_trans [OF remove_columns_loop_frame [OF lp] this]]
  show ?thesis by simp
qed

lemma handle_create_leaf_shape:
  assumes "handle_create_leaf ctx create_leaf h ts (d, p, pos, sc, nc, ni) = Inr (h', ts')"
  shows "step_shape h ts (d, p, pos, sc, nc, ni) h' ts'"
proof -
  from assms have
    sc: "set_child (h @ [Leaf (create_leaf d ctx sc)]) p pos (length h) = Inr h'" and
    ts': "ts' = ts"
    by (auto simp: handle_create_leaf_def Let_def split: sum.splits)
  from fill_then_loop [OF sc _ loop_frame_refl] ts' show ?thesis by simp
qed

lemma loop_body_shape:
  assumes "loop_body ctx split_rows split_cols create_leaf next_op data_slicer
             (h, (d, p, pos, sc, nc, ni) # ts) = Inr (h', ts')"
  shows "step_shape h ts (d, p, pos, sc, nc, ni) h' ts'"
proof -
  from assms obtain operation prm where
    dec: "next_op d sc nc ni (p = root) = Inr (operation, prm)"
    by (auto simp: loop_body_def dispatch_def split: sum.splits)
  show ?thesis
  proof (cases operation)
    case CREATE_LEAF
    then have "handle_create_leaf ctx create_leaf h ts (d, p, pos, sc, nc, ni) = Inr (h', ts')"
      using assms by (simp add: loop_body_def dispatch_def dec)
    then show ?thesis by (rule handle_create_leaf_shape)
  next
    case SPLIT_COLUMNS
    then have "handle_split_columns ctx split_cols h ts (d, p, pos, sc, nc, ni) = Inr (h', ts')"
      using assms by (simp add: loop_body_def dispatch_def dec)
    then show ?thesis by (rule handle_split_columns_shape)
  next
    case SPLIT_ROWS
    then have "handle_split_rows ctx split_rows h ts (d, p, pos, sc, nc, ni) = Inr (h', ts')"
      using assms by (simp add: loop_body_def dispatch_def dec)
    then show ?thesis by (rule handle_split_rows_shape)
  next
    case NAIVE_FACTORIZATION
    then have "handle_naive_factorization data_slicer h ts (d, p, pos, sc, nc, ni) = Inr (h', ts')"
      using assms by (simp add: loop_body_def dispatch_def dec)
    then show ?thesis by (rule handle_naive_factorization_shape)
  next
    case REMOVE_UNINFORMATIVE_FEATURES
    then have "handle_remove_uninformative_features data_slicer h ts (d, p, pos, sc, nc, ni) prm
               = Inr (h', ts')"
      using assms by (simp add: loop_body_def dispatch_def dec)
    then show ?thesis by (rule handle_remove_uninformative_features_shape)
  qed
qed

lemma step_shape_extends:
  assumes "step_shape h ts (d, p, pos, sc, nc, ni) h' ts'"
  shows "heap_extends h h'"
proof -
  from assms consider (same) "h' = h"
    | (new) "length h' = Suc (length h)" "p < length h"
        "\<forall>b < length h. b \<noteq> p \<longrightarrow> h' ! b = h ! b" "slot_filled h p pos h'"
    by (auto simp: step_shape_def)
  then show ?thesis
  proof cases
    case same
    then show ?thesis by (simp add: heap_extends_refl)
  next
    case new
    have "same_sum (h ! p) (h' ! p)"
      using new(4) by (cases "h ! p") (auto simp: slot_filled_def)
    then have "\<And>b. b < length h \<Longrightarrow> same_sum (h ! b) (h' ! b)"
      using new(3) same_sum_refl by metis
    then show ?thesis using new(1) by (simp add: heap_extends_def)
  qed
qed

lemma run_tasks_extends:
  assumes "run_tasks ctx split_rows split_cols create_leaf next_op data_slicer st = Some r"
  shows "\<forall>hf. r = Inr hf \<longrightarrow> heap_extends (fst st) hf"
proof (rule run_tasks.raw_induct
    [where P = "\<lambda>ctx split_rows split_cols create_leaf next_op data_slicer st r.
       \<forall>hf. r = Inr hf \<longrightarrow> heap_extends (fst st) hf",
     OF _ assms], goal_cases)
  case (1 run ctx split_rows split_cols create_leaf next_op data_slicer st r)
  note IH = "1"(1) and eq = "1"(2)
  show ?case
  proof (cases "snd st = []")
    case True
    then show ?thesis using eq by (auto simp: heap_extends_refl)
  next
    case False
    show ?thesis
    proof (cases "loop_body ctx split_rows split_cols create_leaf next_op data_slicer st")
      case (Inl e)
      then show ?thesis using eq False by auto
    next
      case (Inr st')
      then have rec: "run ctx split_rows split_cols create_leaf next_op data_slicer st' = Some r"
        using eq False by simp
      obtain h q where st: "st = (h, q)" by (cases st)
      obtain t ts where q: "q = t # ts" using False st by (cases q) auto
      obtain d p pos sc nc ni where t: "t = (d, p, pos, sc, nc, ni)" by (cases t)
      obtain h' ts' where st': "st' = (h', ts')" by (cases st')
      have "loop_body ctx split_rows split_cols create_leaf next_op data_slicer
              (h, (d, p, pos, sc, nc, ni) # ts) = Inr (h', ts')"
        using Inr by (simp add: st q t st')
      from step_shape_extends [OF loop_body_shape [OF this]]
      have "heap_extends h h'" .
      then show ?thesis
        using IH [OF rec] heap_extends_trans by (fastforce simp: st st')
    qed
  qed
qed

text \<open>
  C4: one iteration of the loop keeps every Sum node aligned (as many weights as child
  slots), and so does the whole run that follows, in which every Sum node also keeps its
  scope, its weights and its number of slots.  Every Sum node the iteration creates is
  the one of the row split: its scope is the task's, its weights are the proportions of
  the triples in order, it has one slot per triple, and the task enqueued for slot \<open>i\<close>
  carries the slice of triple \<open>i\<close>.  An iteration on the task for slot \<open>pos\<close> of the
  node \<open>p\<close> either enqueues that task again, with its slice, parent and slot, or puts
  the one node it creates into slot \<open>pos\<close> of \<open>p\<close>, changes nothing else in the nodes
  there were, and enqueues tasks for the new node only; a leaf it creates is the leaf of
  the task's slice.
\<close>

theorem sum_weights_match_children:
  assumes al: "list_all sum_aligned h"
    and step: "loop_body ds_context split_rows split_cols create_leaf next_op data_slicer
                 (h, (d, p, pos, scope, nc, ni) # ts) = Inr (h', ts')"
  shows "list_all sum_aligned h'
    \<and> (\<forall>hf. run_tasks ds_context split_rows split_cols create_leaf next_op data_slicer (h', ts')
               = Some (Inr hf) \<longrightarrow> list_all sum_aligned hf \<and> heap_extends h' hf)
    \<and> (\<forall>a s cs ws. length h \<le> a \<and> a < length h' \<and> h' ! a = Sum s cs ws \<longrightarrow>
          s = scope
        \<and> ws = map (\<lambda>t. snd (snd t)) (split_rows d ds_context scope)
        \<and> length cs = length ws
        \<and> ts' = ts @ map (\<lambda>i. (fst (split_rows d ds_context scope ! i), a, i, scope, False, False))
                        [0..<length ws])
    \<and> step_shape h ts (d, p, pos, scope, nc, ni) h' ts'
    \<and> (\<forall>l. length h' = Suc (length h) \<and> h' ! length h = Leaf l \<longrightarrow>
          l = create_leaf d ds_context scope)"
proof -
  let ?t = "(d, p, pos, scope, nc, ni)"
  let ?sl = "split_rows d ds_context scope"
  have al': "list_all sum_aligned h'"
    using loop_body_sum_aligned [OF step al] .
  have run: "\<forall>hf. run_tasks ds_context split_rows split_cols create_leaf next_op data_slicer
                (h', ts') = Some (Inr hf) \<longrightarrow> list_all sum_aligned hf \<and> heap_extends h' hf"
    using run_tasks_sum_aligned [of ds_context split_rows split_cols create_leaf next_op
        data_slicer "(h', ts')"]
      run_tasks_extends [of ds_context split_rows split_cols create_leaf next_op
        data_slicer "(h', ts')"] al' by auto
  have shape: "step_shape h ts (d, p, pos, scope, nc, ni) h' ts'"
    using loop_body_shape [OF step] .
  from step obtain operation prm where
    dec: "next_op d scope nc ni (p = root) = Inr (operation, prm)"
    by (auto simp: loop_body_def dispatch_def split: sum.splits)
  have new: "s = scope \<and> ws = map (\<lambda>t. snd (snd t)) ?sl \<and> length cs = length ws
        \<and> ts' = ts @ map (\<lambda>i. (fst (?sl ! i), a, i, scope, False, False)) [0..<length ws]"
    if a: "length h \<le> a" "a < length h'" and nd: "h' ! a = Sum s cs ws" for a s cs ws
  proof (cases operation)
    case CREATE_LEAF
    then have "handle_create_leaf ds_context create_leaf h ts ?t = Inr (h', ts')"
      using step by (simp add: loop_body_def dispatch_def dec)
    from handle_create_leaf_inv [OF this al]
    have "length h' = Suc (length h)" and lf: "h' ! length h = Leaf (create_leaf d ds_context scope)"
      by simp_all
    then have "a = length h" using a by simp
    then show ?thesis using nd lf by simp
  next
    case SPLIT_COLUMNS
    then have "handle_split_columns ds_context split_cols h ts ?t = Inr (h', ts')"
      using step by (simp add: loop_body_def dispatch_def dec)
    from handle_split_columns_inv [OF this al]
    have "h' = h \<or> (is_product (h' ! length h) \<and> length h' = Suc (length h))"
      by (auto simp: prod_inv_def)
    then have "a = length h \<and> is_product (h' ! length h)" using a by auto
    then show ?thesis using nd by simp
  next
    case SPLIT_ROWS
    then have hs: "handle_split_rows ds_context split_rows h ts ?t = Inr (h', ts')"
      using step by (simp add: loop_body_def dispatch_def dec)
    show ?thesis
    proof (cases "length ?sl = 1")
      case True
      then have "h' = h" using hs by (simp add: handle_split_rows_def)
      then show ?thesis using a by simp
    next
      case False
      from handle_split_rows_closed [OF hs False] obtain h2 where
        sc: "set_child (h @ [Sum scope [] []]) p pos (length h) = Inr h2" and
        h': "h' = h2[length h := Sum scope (replicate (length ?sl) None)
                                   (map (\<lambda>t. snd (snd t)) ?sl)]" and
        ts': "ts' = ts @ map (\<lambda>i. (fst (?sl ! i), length h, i, scope, False, False))
                             [0..<length ?sl]"
        by blast
      have len: "length h' = Suc (length h)"
        using set_child_fresh(2) [OF sc] by (simp add: h')
      then have ae: "a = length h" using a by simp
      have "h' ! a = Sum scope (replicate (length ?sl) None) (map (\<lambda>t. snd (snd t)) ?sl)"
        using len by (simp add: h' ae)
      then show ?thesis using nd ts' by (auto simp: ae)
    qed
  next
    case NAIVE_FACTORIZATION
    then have "handle_naive_factorization data_slicer h ts ?t = Inr (h', ts')"
      using step by (simp add: loop_body_def dispatch_def dec)
    from handle_naive_factorization_inv [OF this al]
    have "is_product (h' ! length h) \<and> length h' = Suc (length h)"
      by (simp add: prod_inv_def)
    then have "a = length h \<and> is_product (h' ! length h)" using a by auto
    then show ?thesis using nd by simp
  next
    case REMOVE_UNINFORMATIVE_FEATURES
    then have "handle_remove_uninformative_features data_slicer h ts ?t prm = Inr (h', ts')"
      using step by (simp add: loop_body_def dispatch_def dec)
    from handle_remove_uninformative_features_inv [OF this al]
    have "is_product (h' ! length h) \<and> length h' = Suc (length h)"
      by (simp add: prod_inv_def)
    then have "a = length h \<and> is_product (h' ! length h)" using a by auto
    then show ?thesis using nd by simp
  qed
  have leaf: "l = create_leaf d ds_context scope"
    if len: "length h' = Suc (length h)" and nd: "h' ! length h = Leaf l" for l
  proof (cases operation)
    case CREATE_LEAF
    then have "handle_create_leaf ds_context create_leaf h ts ?t = Inr (h', ts')"
      using step by (simp add: loop_body_def dispatch_def dec)
    from handle_create_leaf_inv [OF this al] show ?thesis using nd by simp
  next
    case SPLIT_COLUMNS
    then have "handle_split_columns ds_context split_cols h ts ?t = Inr (h', ts')"
      using step by (simp add: loop_body_def dispatch_def dec)
    from handle_split_columns_inv [OF this al] len
    have "is_product (h' ! length h)" by (auto simp: prod_inv_def)
    then show ?thesis using nd by simp
  next
    case SPLIT_ROWS
    then have hs: "handle_split_rows ds_context split_rows h ts ?t = Inr (h', ts')"
      using step by (simp add: loop_body_def dispatch_def dec)
    show ?thesis
    proof (cases "length ?sl = 1")
      case True
      then have "h' = h" using hs by (simp add: handle_split_rows_def)
      then show ?thesis using len by simp
    next
      case False
      from handle_split_rows_closed [OF hs False] obtain h2 where
        "set_child (h @ [Sum scope [] []]) p pos (length h) = Inr h2" and
        "h' = h2[length h := Sum scope (replicate (length ?sl) None)
                                   (map (\<lambda>t. snd (snd t)) ?sl)]"
        by blast
      then have "h' ! length h = Sum scope (replicate (length ?sl) None)
                                   (map (\<lambda>t. snd (snd t)) ?sl)"
        using len by simp
      then show ?thesis using nd by simp
    qed
  next
    case NAIVE_FACTORIZATION
    then have "handle_naive_factorization data_slicer h ts ?t = Inr (h', ts')"
      using step by (simp add: loop_body_def dispatch_def dec)
    from handle_naive_factorization_inv [OF this al]
    have "is_product (h' ! length h)" by (simp add: prod_inv_def)
    then show ?thesis using nd by simp
  next
    case REMOVE_UNINFORMATIVE_FEATURES
    then have "handle_remove_uninformative_features data_slicer h ts ?t prm = Inr (h', ts')"
      using step by (simp add: loop_body_def dispatch_def dec)
    from handle_remove_uninformative_features_inv [OF this al]
    have "is_product (h' ! length h)" by (simp add: prod_inv_def)
    then show ?thesis using nd by simp
  qed
  have new': "\<forall>a s cs ws. length h \<le> a \<and> a < length h' \<and> h' ! a = Sum s cs ws \<longrightarrow>
          s = scope
        \<and> ws = map (\<lambda>t. snd (snd t)) (split_rows d ds_context scope)
        \<and> length cs = length ws
        \<and> ts' = ts @ map (\<lambda>i. (fst (split_rows d ds_context scope ! i), a, i, scope, False, False))
                        [0..<length ws]"
    using new by blast
  have leaf': "\<forall>l. length h' = Suc (length h) \<and> h' ! length h = Leaf l \<longrightarrow>
          l = create_leaf d ds_context scope"
    using leaf by blast
  show ?thesis
    apply (intro conjI)
        apply (rule al')
       apply (rule run)
      apply (rule new')
     apply (rule shape)
    apply (rule leaf')
    done
qed

lemma np_var_singleton: "np_var [x] = Some 0"
  by (simp add: np_var_def np_mean_def)

lemma np_var_10: "np_var [1, 0] = Some (1 / 4)"
  by (simp add: np_var_def np_mean_def power2_eq_square)

lemma policy_two_varying_columns:
  "length scope = 2 \<Longrightarrow>
   get_next_operation 1 two_varying_columns scope nc ni first
   = Inr (if nc \<and> ni then NAIVE_FACTORIZATION
          else if ni then SPLIT_ROWS
          else if nc then SPLIT_COLUMNS
          else if first then SPLIT_ROWS else SPLIT_COLUMNS, None)"
  by (simp add: get_next_operation_def next_operation_def next_operation_with_def two_varying_columns_def
      np_var_01 np_var_10)

lemma scenario_step1:
  "loop_body ctx two_clusters split_cols keep_leaf (get_next_operation 1) default_slicer
     (initial_heap, [(two_varying_columns, root, 0, [0, 1], False, False)])
   = Inr ([Product [] [Some 1], Sum [0, 1] [None, None] [3 / 10, 7 / 10]],
          [(upper_row, 1, 0, [0, 1], False, False), (lower_row, 1, 1, [0, 1], False, False)])"
  by (simp add: loop_body_def policy_two_varying_columns dispatch_def handle_split_rows_def
      two_clusters_def initial_heap_def root_def set_child_def Let_def append_child_def
      append_weight_def last_slot_def)

lemma policy_single_row:
  "length scope = 2 \<Longrightarrow>
   get_next_operation m \<lparr>shape0 = r, columns = [[x], [y]]\<rparr> scope nc ni first
   = Inr (NAIVE_FACTORIZATION, None)"
  by (simp add: get_next_operation_def next_operation_def next_operation_with_def np_var_singleton shape1_def)

lemma scenario_step2:
  "loop_body ctx two_clusters split_cols keep_leaf (get_next_operation 1) default_slicer
     ([Product [] [Some 1], Sum [0, 1] [None, None] [3 / 10, 7 / 10]],
      [(upper_row, 1, 0, [0, 1], False, False), (lower_row, 1, 1, [0, 1], False, False)])
   = Inr ([Product [] [Some 1], Sum [0, 1] [Some 2, None] [3 / 10, 7 / 10],
           Product [0, 1] [None, None]],
          [(lower_row, 1, 1, [0, 1], False, False),
           (\<lparr>shape0 = 1, columns = [[0]]\<rparr>, 2, 0, [0], True, True),
           (\<lparr>shape0 = 1, columns = [[1]]\<rparr>, 2, 1, [1], True, True)])"
  by (simp add: loop_body_def policy_single_row dispatch_def handle_naive_factorization_def
      default_slicer_def shape1_def upper_row_def set_child_def Let_def append_child_def
      last_slot_def upt_rec)

lemma policy_single_column:
  "length scope = 1 \<Longrightarrow>
   get_next_operation m data scope True ni first = Inr (CREATE_LEAF, None)"
  by (simp add: get_next_operation_def next_operation_def next_operation_with_def)

lemma scenario_run:
  "run_tasks ctx two_clusters split_cols keep_leaf (get_next_operation 1) default_slicer
     (initial_heap, [(two_varying_columns, root, 0, [0, 1], False, False)])
   = Some (Inr scenario_heap)"
  by (simp add: run_tasks.simps loop_body_def policy_two_varying_columns policy_single_row
      policy_single_column dispatch_def handle_split_rows_def handle_naive_factorization_def
      handle_create_leaf_def default_slicer_def shape1_def upper_row_def lower_row_def
      two_clusters_def initial_heap_def root_def set_child_def Let_def append_child_def
      append_weight_def last_slot_def keep_leaf_def scenario_heap_def upt_rec)

text \<open>
  The scenario of the specification: a row split with proportions 0.3 and 0.7.  The
  iteration after it works on the task for slot 0 of the Sum node: it fills that slot
  and leaves the weights 0.3 and 0.7 as they were.
\<close>

theorem sum_weights_match_children_witness:
  "list_all sum_aligned (initial_heap :: (ndarray \<times> scope) heap)
   \<and> loop_body () two_clusters single_slice keep_leaf (get_next_operation 1) default_slicer
       (initial_heap, [(two_varying_columns, root, 0, [0, 1], False, False)])
     = Inr ([Product [] [Some 1], Sum [0, 1] [None, None] [3 / 10, 7 / 10]],
            [(upper_row, 1, 0, [0, 1], False, False), (lower_row, 1, 1, [0, 1], False, False)])
   \<and> run_tasks () two_clusters single_slice keep_leaf (get_next_operation 1) default_slicer
       ([Product [] [Some 1], Sum [0, 1] [None, None] [3 / 10, 7 / 10]],
        [(upper_row, 1, 0, [0, 1], False, False), (lower_row, 1, 1, [0, 1], False, False)])
     = Some (Inr scenario_heap)
   \<and> list_all sum_aligned scenario_heap
   \<and> heap_extends [Product [] [Some 1], Sum [0, 1] [None, None] [3 / 10, 7 / 10]] scenario_heap
   \<and> scenario_heap ! 1 = Sum [0, 1] [Some 2, Some 3] [3 / 10, 7 / 10]
   \<and> loop_body () two_clusters single_slice keep_leaf (get_next_operation 1) default_slicer
       ([Product [] [Some 1], Sum [0, 1] [None, None] [3 / 10, 7 / 10]],
        [(upper_row, 1, 0, [0, 1], False, False), (lower_row, 1, 1, [0, 1], False, False)])
     = Inr ([Product [] [Some 1], Sum [0, 1] [Some 2, None] [3 / 10, 7 / 10],
             Product [0, 1] [None, None]],
            [(lower_row, 1, 1, [0, 1], False, False),
             (\<lparr>shape0 = 1, columns = [[0]]\<rparr>, 2, 0, [0], True, True),
             (\<lparr>shape0 = 1, columns = [[1]]\<rparr>, 2, 1, [1], True, True)])
   \<and> step_shape [Product [] [Some 1], Sum [0, 1] [None, None] [3 / 10, 7 / 10]]
         [(lower_row, 1, 1, [0, 1], False, False)]
         (upper_row, 1, 0, [0, 1], False, False)
         ([Product [] [Some 1], Sum [0, 1] [Some 2, None] [3 / 10, 7 / 10],
           Product [0, 1] [None, None]] :: (ndarray \<times> scope) heap)
         [(lower_row, 1, 1, [0, 1], False, False),
          (\<lparr>shape0 = 1, columns = [[0]]\<rparr>, 2, 0, [0], True, True),
          (\<lparr>shape0 = 1, columns = [[1]]\<rparr>, 2, 1, [1], True, True)]"
proof -
  let ?h1 = "[Product [] [Some 1], Sum [0, 1] [None, None] [3 / 10, 7 / 10]]
             :: (ndarray \<times> scope) heap"
  let ?st1 = "([Product [] [Some 1], Sum [0, 1] [None, None] [3 / 10, 7 / 10]],
        [(upper_row, 1, 0, [0, 1], False, False), (lower_row, 1, 1, [0, 1], False, False)])
        :: (ndarray \<times> scope) heap \<times> task list"
  have a: "list_all sum_aligned (initial_heap :: (ndarray \<times> scope) heap)"
    by (simp add: initial_heap_def)
  have b: "loop_body () two_clusters single_slice keep_leaf (get_next_operation 1) default_slicer
       (initial_heap, [(two_varying_columns, root, 0, [0, 1], False, False)]) = Inr ?st1"
    by (rule scenario_step1)
  have c: "run_tasks () two_clusters single_slice keep_leaf (get_next_operation 1) default_slicer
       ?st1 = Some (Inr scenario_heap)"
  proof -
    have "run_tasks () two_clusters single_slice keep_leaf (get_next_operation 1) default_slicer
            (initial_heap, [(two_varying_columns, root, 0, [0, 1], False, False)])
          = run_tasks () two_clusters single_slice keep_leaf (get_next_operation 1)
              default_slicer ?st1"
      apply (subst run_tasks.simps)
      using b by simp
    then show ?thesis
      using scenario_run [of "()" single_slice] by simp
  qed
  have d: "scenario_heap ! 1 = Sum [0, 1] [Some 2, Some 3] [3 / 10, 7 / 10]"
    by (simp add: scenario_heap_def)
  have e: "list_all sum_aligned scenario_heap
           \<and> heap_extends [Product [] [Some 1], Sum [0, 1] [None, None] [3 / 10, 7 / 10]]
                 scenario_heap"
    using sum_weights_match_children [OF a b, THEN conjunct2, THEN conjunct1] c by blast
  have a1: "list_all sum_aligned ?h1" by simp
  have b1: "loop_body () two_clusters single_slice keep_leaf (get_next_operation 1)
             default_slicer
             (?h1, (upper_row, 1, 0, [0, 1], False, False)
                   # [(lower_row, 1, 1, [0, 1], False, False)])
           = Inr ([Product [] [Some 1], Sum [0, 1] [Some 2, None] [3 / 10, 7 / 10],
                   Product [0, 1] [None, None]],
                  [(lower_row, 1, 1, [0, 1], False, False),
                   (\<lparr>shape0 = 1, columns = [[0]]\<rparr>, 2, 0, [0], True, True),
                   (\<lparr>shape0 = 1, columns = [[1]]\<rparr>, 2, 1, [1], True, True)])"
    by (rule scenario_step2)
  from sum_weights_match_children [OF a1 b1]
  have c1: "step_shape ?h1 [(lower_row, 1, 1, [0, 1], False, False)]
         (upper_row, 1, 0, [0, 1], False, False)
         ([Product [] [Some 1], Sum [0, 1] [Some 2, None] [3 / 10, 7 / 10],
           Product [0, 1] [None, None]] :: (ndarray \<times> scope) heap)
         [(lower_row, 1, 1, [0, 1], False, False),
          (\<lparr>shape0 = 1, columns = [[0]]\<rparr>, 2, 0, [0], True, True),
          (\<lparr>shape0 = 1, columns = [[1]]\<rparr>, 2, 1, [1], True, True)]"
    by (elim conjE)
  show ?thesis
    apply (intro conjI)
           apply (rule a)
          apply (rule b)
         apply (rule c)
        apply (rule e [THEN conjunct1])
       apply (rule e [THEN conjunct2])
      apply (rule d)
     apply (rule b1)
    apply (rule c1)
    done
qed

lemma cycle_step:
  "\<not> (nc \<and> ni) \<Longrightarrow>
   loop_body ctx single_slice single_slice create_leaf (get_next_operation 1) data_slicer
     (h, [(two_varying_columns, root, pos, [0, 1], nc, ni)])
   = Inr (h, [(two_varying_columns, root, pos, [0, 1], \<not> nc, nc)])"
  by (auto simp: loop_body_def policy_two_varying_columns dispatch_def handle_split_rows_def
      handle_split_columns_def single_slice_def)

lemma cycle_never_returns:
  assumes "run_tasks ctx split_rows split_cols create_leaf next_op data_slicer st = Some r"
  shows "\<not> in_cycle split_rows split_cols next_op st"
proof (rule run_tasks.raw_induct
    [where P = "\<lambda>ctx split_rows split_cols create_leaf next_op data_slicer st r.
       \<not> in_cycle split_rows split_cols next_op st", OF _ assms], goal_cases)
  case (1 run ctx split_rows split_cols create_leaf next_op data_slicer st r)
  note IH = "1"(1) and eq = "1"(2)
  show ?case
  proof
    assume cyc: "in_cycle split_rows split_cols next_op st"
    then obtain nc ni where
      q: "snd st = [(two_varying_columns, root, 0, [0, 1], nc, ni)]" and f: "\<not> (nc \<and> ni)"
      and p: "split_rows = single_slice" "split_cols = single_slice"
        "next_op = get_next_operation 1"
      by (auto simp: in_cycle_def)
    have st: "st = (fst st, [(two_varying_columns, root, 0, [0, 1], nc, ni)])"
      using q by (cases st) simp
    let ?st' = "(fst st, [(two_varying_columns, root, 0, [0, 1], \<not> nc, nc)])"
    have lb: "loop_body ctx split_rows split_cols create_leaf next_op data_slicer st = Inr ?st'"
      using cycle_step [OF f, of ctx create_leaf data_slicer "fst st" 0] st p by simp
    have "run ctx split_rows split_cols create_leaf next_op data_slicer ?st' = Some r"
      using eq q lb by simp
    from IH [OF this] show False
      using p f by (auto simp: in_cycle_def)
  qed
qed

text \<open>
  C1: with a row split and a column split that always return one triple, the builder
  should come to an end.  It does not on a dataset of two rows and two varying columns
  with the floor at one row: every re-enqueue at lines 147 and 172 sets the other flag
  back to False, the two flags are never both true, and the loop runs forever.
\<close>

theorem single_result_splits_never_terminate:
  "learn_structure (Some two_varying_columns) (Some ds_context) (Some single_slice)
     (Some single_slice) (Some create_leaf) (Some (get_next_operation 1)) None data_slicer
     assign_ids Prune is_valid = None"
proof -
  let ?st0 = "(initial_heap, [(two_varying_columns, root, 0, [0, 1], False, False)])"
  have "run_tasks ds_context single_slice single_slice create_leaf (get_next_operation 1)
          data_slicer ?st0 = None"
  proof (cases "run_tasks ds_context single_slice single_slice create_leaf
                  (get_next_operation 1) data_slicer ?st0")
    case None
    then show ?thesis .
  next
    case (Some r)
    from cycle_never_returns [OF Some] show ?thesis by (auto simp: in_cycle_def)
  qed
  moreover have "[0..<shape1 two_varying_columns] = [0, 1]"
    by (simp add: shape1_def two_varying_columns_def upt_rec)
  ultimately show ?thesis
    by (simp add: learn_structure_def)
qed

text \<open>
  C2: a single-result split should re-enqueue the task with its own flag set and the
  other flag as it was.  The code sets the other flag to False: a task with flags
  (False, True) whose row split finds one cluster comes back with (True, False), and a
  task with flags (True, False) whose column split finds one group comes back with
  (False, True).  The slice, the scope, the parent and the slot are kept and the heap is
  unchanged.  The two handlers do so for every task: the other flag of the re-enqueued
  task is the constant False.
\<close>

theorem requeue_resets_other_flag:
  "loop_body ds_context single_slice split_cols create_leaf (get_next_operation 1) data_slicer
     (h, (two_varying_columns, parent, children_pos, [0, 1], False, True) # tasks)
   = Inr (h, tasks @ [(two_varying_columns, parent, children_pos, [0, 1], True, False)])
   \<and> loop_body ds_context split_rows single_slice create_leaf (get_next_operation 1) data_slicer
     (h, (two_varying_columns, parent, children_pos, [0, 1], True, False) # tasks)
   = Inr (h, tasks @ [(two_varying_columns, parent, children_pos, [0, 1], False, True)])
   \<and> handle_split_rows ds_context single_slice h tasks
       (local_data, parent, children_pos, scope, no_clusters, True)
     = Inr (h, tasks @ [(local_data, parent, children_pos, scope, True, False)])
   \<and> handle_split_columns ds_context single_slice h tasks
       (local_data, parent, children_pos, scope, True, no_independencies)
     = Inr (h, tasks @ [(local_data, parent, children_pos, scope, False, True)])"
  by (simp add: loop_body_def policy_two_varying_columns dispatch_def handle_split_rows_def
      handle_split_columns_def single_slice_def)

lemma policy_three_columns:
  "length scope = 3 \<Longrightarrow>
   get_next_operation m three_columns scope nc ni first
   = Inr (REMOVE_UNINFORMATIVE_FEATURES, Some [0])"
  by (simp add: get_next_operation_def next_operation_def next_operation_with_def three_columns_def shape1_def
      np_var_55 np_var_01 np_var_10 bool_index_def upt_rec)

lemma three_columns_fields:
  "shape0 three_columns = 2" "columns three_columns = [[5, 5], [0, 1], [1, 0]]"
  by (simp_all add: three_columns_def)

lemma np_var_examples:
  "np_var [5, 5, 5, 5] = Some 0"
  "np_var [0, 0, 1, 1] = Some (1 / 4)"
  "np_var [0, 1, 0, 1] = Some (1 / 4)"
  "np_var [0, 0] = Some 0"
  "np_var [1, 1] = Some 0"
  by (simp_all add: np_var_def np_mean_def power2_eq_square)

lemma four_rows_run:
  "run_tasks ctx split_halves single_slice keep_leaf (get_next_operation 1) default_slicer
     (initial_heap, [(four_rows, root, 0, [0, 1, 2], False, False)])
   = Some (Inr four_rows_heap)"
  by (simp add: run_tasks.simps loop_body_def get_next_operation_def next_operation_def next_operation_with_def
      np_var_examples np_var_01 bool_index_def
      dispatch_def handle_split_rows_def handle_split_columns_def handle_create_leaf_def
      handle_remove_uninformative_features_def default_slicer_def shape1_def four_rows_def
      split_halves_def single_slice_def
      initial_heap_def root_def set_child_def Let_def append_child_def
      append_weight_def last_slot_def keep_leaf_def four_rows_heap_def upt_rec)

lemma four_rows_scope: "[0..<shape1 four_rows] = [0, 1, 2]"
  by (simp add: shape1_def four_rows_def upt_rec)

lemma four_rows_root_child: "root_child four_rows_heap = Inr (Some 1)"
  by (simp add: root_child_def four_rows_heap_def root_def)

text \<open>
  C3: the follow-up tasks of REMOVE_UNINFORMATIVE_FEATURES should carry original column
  identifiers.  For a root task with the identifiers [4, 6, 8], the task of the
  zero-variance column does (scope [4]); the task for the remaining columns carries the
  positions [1, 2] where the identifiers are [6, 8].  With the default initial scope
  the same shows one level down: the columns 1 and 2 of a dataset of four rows end in
  leaves whose scopes are [1] and [1], and no leaf has the scope [2].
\<close>

theorem remaining_columns_scope_is_positions:
  "loop_body ds_context split_rows split_cols create_leaf (get_next_operation 1) default_slicer
     (initial_heap, [(three_columns, root, 0, [4, 6, 8], False, False)])
   = Inr ([Product [] [Some 1], Product [4, 6, 8] [None, None]],
          [(\<lparr>shape0 = 2, columns = [[5, 5]]\<rparr>, 1, 0, [4], True, True),
           (\<lparr>shape0 = 2, columns = [[0, 1], [1, 0]]\<rparr>, 1, 1, [1, 2], False, False)])
   \<and> learn_structure (Some four_rows) (Some ds_context) (Some split_halves) (Some single_slice)
       (Some keep_leaf) (Some (get_next_operation 1)) None default_slicer
       no_ids no_pruning always_valid
     = Some (Inr (four_rows_heap, Some 1))"
proof (rule conjI)
  show "loop_body ds_context split_rows split_cols create_leaf (get_next_operation 1)
          default_slicer (initial_heap, [(three_columns, root, 0, [4, 6, 8], False, False)])
        = Inr ([Product [] [Some 1], Product [4, 6, 8] [None, None]],
               [(\<lparr>shape0 = 2, columns = [[5, 5]]\<rparr>, 1, 0, [4], True, True),
                (\<lparr>shape0 = 2, columns = [[0, 1], [1, 0]]\<rparr>, 1, 1, [1, 2], False, False)])"
    by (simp add: loop_body_def policy_three_columns dispatch_def
        handle_remove_uninformative_features_def default_slicer_def shape1_def
        three_columns_fields initial_heap_def root_def set_child_def Let_def append_child_def
        last_slot_def upt_rec)
  show "learn_structure (Some four_rows) (Some ds_context) (Some split_halves)
          (Some single_slice) (Some keep_leaf) (Some (get_next_operation 1)) None
          default_slicer no_ids no_pruning always_valid
        = Some (Inr (four_rows_heap, Some 1))"
    unfolding learn_structure_def option.case Let_def four_rows_scope four_rows_run
    by (simp add: post_process_def four_rows_root_child no_ids_def no_pruning_def
        always_valid_def)
qed

text \<open>
  C9: when the dataset, the context, a collaborator or the policy is None,
  \<^verbatim>\<open>learn_structure\<close> raises AssertionError, whatever the other arguments are: no
  root is created and no task is processed, also for arguments on which the loop would
  not end.
\<close>

theorem preconditions_fail_first:
  assumes "dataset = None \<or> ds_context = None \<or> split_rows = None \<or> split_cols = None
           \<or> create_leaf = None \<or> next_op = None"
  shows "learn_structure dataset ds_context split_rows split_cols create_leaf next_op
           initial_scope data_slicer assign_ids Prune is_valid = Some (Inl AssertionError)"
  using assms by (auto simp: learn_structure_def split: option.splits)

lemma root_lineage_initial:
  "root_lineage dataset scope0 (initial_heap, [(dataset, root, 0, scope0, nc, ni)])"
  by (simp add: root_lineage_def initial_heap_def)

lemma root_lineage_step:
  assumes inv: "root_lineage dataset scope0 (h, (d, p, pos, sc, nc, ni) # ts)"
    and sh: "step_shape h ts (d, p, pos, sc, nc, ni) h' ts'"
  shows "root_lineage dataset scope0 (h', ts')"
proof -
  let ?r = "\<lambda>t :: task. fst (snd t) = root"
  let ?ok = "\<lambda>t :: task. fst (snd t) = root \<longrightarrow>
                fst t = dataset \<and> fst (snd (snd t)) = 0 \<and> fst (snd (snd (snd t))) = scope0"
  from inv have ne: "h \<noteq> []" and cnt: "length (filter ?r ((d, p, pos, sc, nc, ni) # ts)) \<le> 1"
    and ok: "list_all ?ok ((d, p, pos, sc, nc, ni) # ts)"
    by (simp_all add: root_lineage_def)
  from sh consider
    (requeue) nc' ni' where "h' = h" "ts' = ts @ [(d, p, pos, sc, nc', ni')]"
    | (new) new where "length h' = Suc (length h)" "ts' = ts @ new"
        "list_all (\<lambda>t'. fst (snd t') = length h) new"
    by (auto simp: step_shape_def)
  then show ?thesis
  proof cases
    case requeue
    have "length (filter ?r ts') = length (filter ?r ((d, p, pos, sc, nc, ni) # ts))"
      by (simp add: requeue(2))
    moreover have "list_all ?ok ts'" using ok by (simp add: requeue(2))
    ultimately show ?thesis using ne cnt by (simp add: root_lineage_def requeue(1))
  next
    case new
    have nr: "list_all (\<lambda>t. \<not> ?r t) new"
      using new(3) ne by (auto simp: list_all_iff root_def)
    then have f: "filter ?r new = []" by (auto simp: list_all_iff filter_empty_conv)
    have "length (filter ?r ts') \<le> length (filter ?r ((d, p, pos, sc, nc, ni) # ts))"
      by (simp add: new(2) f)
    moreover have "list_all ?ok ts'" using ok nr by (auto simp: new(2) list_all_iff)
    moreover have "h' \<noteq> []" using new(1) by auto
    ultimately show ?thesis using cnt by (simp add: root_lineage_def)
  qed
qed

lemma loop_reaches_root_lineage:
  assumes "loop_reaches ctx split_rows split_cols create_leaf next_op data_slicer st0 st"
    and "root_lineage dataset scope0 st0"
  shows "root_lineage dataset scope0 st"
  using assms
proof (induction rule: loop_reaches.induct)
  case start
  then show ?case .
next
  case (iterate st st' st'')
  have inv: "root_lineage dataset scope0 st'" using iterate.IH iterate.prems .
  obtain h q where st': "st' = (h, q)" by (cases st')
  obtain h' ts' where st'': "st'' = (h', ts')" by (cases st'')
  from iterate.hyps(2) obtain t ts where q: "q = t # ts"
    by (cases q) (auto simp: st' loop_body_def)
  obtain d p pos sc nc ni where t: "t = (d, p, pos, sc, nc, ni)" by (cases t)
  have "loop_body ctx split_rows split_cols create_leaf next_op data_slicer
          (h, (d, p, pos, sc, nc, ni) # ts) = Inr (h', ts')"
    using iterate.hyps(2) by (simp add: st' st'' q t)
  from root_lineage_step [OF _ loop_body_shape [OF this]] inv
  show ?case by (simp add: st' st'' q t)
qed

lemma loop_reaches_prepend:
  assumes "loop_body ctx split_rows split_cols create_leaf next_op data_slicer st = Inr st'"
    and "loop_reaches ctx split_rows split_cols create_leaf next_op data_slicer st' st''"
  shows "loop_reaches ctx split_rows split_cols create_leaf next_op data_slicer st st''"
  using assms(2,1)
proof (induction rule: loop_reaches.induct)
  case start
  from loop_reaches.iterate [OF loop_reaches.start start] show ?case .
next
  case (iterate st1 st2 st3)
  from loop_reaches.iterate [OF iterate.IH [OF iterate.prems] iterate.hyps(2)] show ?case .
qed

lemma run_tasks_reaches:
  assumes "run_tasks ctx split_rows split_cols create_leaf next_op data_slicer st = Some r"
  shows "\<forall>hf. r = Inr hf \<longrightarrow>
           loop_reaches ctx split_rows split_cols create_leaf next_op data_slicer st (hf, [])"
proof (rule run_tasks.raw_induct
    [where P = "\<lambda>ctx split_rows split_cols create_leaf next_op data_slicer st r.
       \<forall>hf. r = Inr hf \<longrightarrow>
         loop_reaches ctx split_rows split_cols create_leaf next_op data_slicer st (hf, [])",
     OF _ assms], goal_cases)
  case (1 run ctx split_rows split_cols create_leaf next_op data_slicer st r)
  note IH = "1"(1) and eq = "1"(2)
  show ?case
  proof (cases "snd st = []")
    case True
    then have "r = Inr (fst st)" using eq by simp
    moreover have "st = (fst st, [])" using True by (cases st) simp
    ultimately show ?thesis using loop_reaches.start [of ctx split_rows split_cols create_leaf next_op data_slicer st]
      by auto
  next
    case False
    show ?thesis
    proof (cases "loop_body ctx split_rows split_cols create_leaf next_op data_slicer st")
      case (Inl e)
      then show ?thesis using eq False by auto
    next
      case (Inr st')
      then have rec: "run ctx split_rows split_cols create_leaf next_op data_slicer st' = Some r"
        using eq False by simp
      from IH [OF rec] loop_reaches_prepend [OF Inr] show ?thesis by blast
    qed
  qed
qed

lemma loop_reaches_same_run:
  assumes "loop_reaches ctx split_rows split_cols create_leaf next_op data_slicer st st'"
  shows "run_tasks ctx split_rows split_cols create_leaf next_op data_slicer st
         = run_tasks ctx split_rows split_cols create_leaf next_op data_slicer st'"
  using assms
proof (induction rule: loop_reaches.induct)
  case start
  then show ?case by simp
next
  case (iterate st st' st'')
  have "snd st' \<noteq> []"
    using iterate.hyps(2) by (cases st') (auto simp: loop_body_def)
  then have "run_tasks ctx split_rows split_cols create_leaf next_op data_slicer st'
        = run_tasks ctx split_rows split_cols create_leaf next_op data_slicer st''"
    using iterate.hyps(2) by (subst run_tasks.simps) simp
  with iterate.IH show ?case by simp
qed

lemma np_var_0110: "np_var [0, 1, 1, 0] = Some (1 / 4)"
  by (simp add: np_var_def np_mean_def power2_eq_square)

lemma mixed_rows_run:
  "run_tasks ctx split_halves split_each_column keep_leaf (get_next_operation 1) default_slicer
     (initial_heap, [(mixed_rows, root, 0, [0, 1], False, False)])
   = Some (Inr mixed_rows_heap)"
  by (simp add: run_tasks.simps loop_body_def get_next_operation_def next_operation_def
      next_operation_with_def np_var_examples np_var_01 np_var_10 np_var_0110 bool_index_def
      dispatch_def handle_split_rows_def handle_split_columns_def handle_create_leaf_def
      default_slicer_def shape1_def mixed_rows_def split_halves_def split_each_column_def
      initial_heap_def root_def set_child_def Let_def append_child_def
      append_weight_def last_slot_def keep_leaf_def mixed_rows_heap_def upt_rec)

lemma mixed_rows_scope: "[0..<shape1 mixed_rows] = [0, 1]"
  by (simp add: shape1_def mixed_rows_def upt_rec)

lemma mixed_rows_root_child: "root_child mixed_rows_heap = Inr (Some 1)"
  by (simp add: root_child_def mixed_rows_heap_def root_def)

lemma mixed_rows_learn_structure:
  "learn_structure (Some mixed_rows) (Some ctx) (Some split_halves) (Some split_each_column)
     (Some keep_leaf) (Some (get_next_operation 1)) None default_slicer
     no_ids no_pruning always_valid
   = Some (Inr (mixed_rows_heap, Some 1))"
  unfolding learn_structure_def option.case Let_def mixed_rows_scope mixed_rows_run
  by (simp add: post_process_def mixed_rows_root_child no_ids_def no_pruning_def
      always_valid_def)

lemma mixed_rows_contrast:
  "next_operation 1 mixed_rows [0, 1] False False True True False = Inr (SPLIT_ROWS, None)"
  "next_operation 1 mixed_rows [0, 1] False False True False False = Inr (SPLIT_COLUMNS, None)"
  "next_operation 1 mixed_rows [0, 1] False False False True False = Inr (SPLIT_COLUMNS, None)"
  "next_operation 1 \<lparr>shape0 = 2, columns = [[0, 1], [0, 1]]\<rparr> [0, 1] False False False True False
   = Inr (SPLIT_COLUMNS, None)"
  "next_operation 1 \<lparr>shape0 = 2, columns = [[0, 1], [0, 1]]\<rparr> [0, 1] False False True True False
   = Inr (SPLIT_ROWS, None)"
  "next_operation 1 \<lparr>shape0 = 2, columns = [[0, 1]]\<rparr> [0] False False False True False
   = Inr (CREATE_LEAF, None)"
  "next_operation 1 \<lparr>shape0 = 2, columns = [[0, 1]]\<rparr> [0] False False False True True
   = Inr (SPLIT_ROWS, None)"
  by (simp_all add: next_operation_def next_operation_with_def mixed_rows_def np_var_examples
      np_var_01 np_var_0110)

lemma mixed_rows_step1:
  "loop_body ctx split_halves split_each_column keep_leaf (get_next_operation 1) default_slicer
     (initial_heap, [(mixed_rows, root, 0, [0, 1], False, False)])
   = Inr ([Product [] [Some 1], Sum [0, 1] [None, None] [1 / 2, 1 / 2]],
          [(\<lparr>shape0 = 2, columns = [[0, 1], [0, 1]]\<rparr>, 1, 0, [0, 1], False, False),
           (\<lparr>shape0 = 2, columns = [[0, 1], [1, 0]]\<rparr>, 1, 1, [0, 1], False, False)])"
  by (simp add: loop_body_def get_next_operation_def next_operation_def
      next_operation_with_def np_var_examples np_var_0110
      dispatch_def handle_split_rows_def mixed_rows_def split_halves_def
      initial_heap_def root_def set_child_def Let_def append_child_def
      append_weight_def last_slot_def)

text \<open>
  C10: in every state the loop of \<^verbatim>\<open>learn_structure\<close> reaches, the iteration asks the
  policy with \<open>is_first\<close> equal to "the parent of the task is the synthetic root"; a
  task with that parent is the initial task, possibly re-enqueued by a single-result
  split, and no other task of the queue has it, so no task made for a node of the tree
  is ever first.  The policy of \<^verbatim>\<open>get_next_operation\<close> is asked with three keywords
  and so runs with \<open>cluster_first = True\<close> and \<open>cluster_univariate = False\<close>.  On
  \<open>mixed_rows\<close> the tree that is returned shows the three values: the root task splits
  rows (with \<open>cluster_first = False\<close> the policy would split columns), the tasks under
  the Sum node split columns (were they first, the policy would split rows), and the
  single columns become leaves (with \<open>cluster_univariate = True\<close> the policy would split
  rows).
\<close>

theorem policy_call_flags:
  assumes "loop_reaches ds_context split_rows split_cols create_leaf next_op data_slicer
             (initial_heap, [(dataset, root, 0, scope0, False, False)])
             (h, (local_data, parent, children_pos, scope, no_clusters, no_independencies)
                 # tasks)"
  shows "loop_body ds_context split_rows split_cols create_leaf next_op data_slicer
           (h, (local_data, parent, children_pos, scope, no_clusters, no_independencies) # tasks)
         = dispatch ds_context split_rows split_cols create_leaf data_slicer h tasks
             (local_data, parent, children_pos, scope, no_clusters, no_independencies)
             (next_op local_data scope no_clusters no_independencies (parent = root))
    \<and> (next_op = get_next_operation min_instances_slice \<longrightarrow>
          loop_body ds_context split_rows split_cols create_leaf next_op data_slicer
            (h, (local_data, parent, children_pos, scope, no_clusters, no_independencies)
                # tasks)
          = dispatch ds_context split_rows split_cols create_leaf data_slicer h tasks
              (local_data, parent, children_pos, scope, no_clusters, no_independencies)
              (next_operation min_instances_slice local_data scope no_clusters
                 no_independencies (parent = root) True False))
    \<and> (parent = root \<longrightarrow>
          local_data = dataset \<and> children_pos = 0 \<and> scope = scope0
          \<and> list_all (\<lambda>t. fst (snd t) \<noteq> root) tasks)
    \<and> learn_structure (Some dataset) (Some ds_context) (Some split_rows) (Some split_cols)
          (Some create_leaf) (Some next_op) (Some scope0) data_slicer assign_ids Prune is_valid
        = (case run_tasks ds_context split_rows split_cols create_leaf next_op data_slicer
                  (h, (local_data, parent, children_pos, scope, no_clusters,
                       no_independencies) # tasks) of
             None \<Rightarrow> None
           | Some (Inl e) \<Rightarrow> Some (Inl e)
           | Some (Inr hf) \<Rightarrow> Some (post_process assign_ids Prune is_valid hf))
    \<and> run_tasks ds_context split_rows split_cols create_leaf next_op data_slicer
          (initial_heap, [(dataset, root, 0, scope0, False, False)])
        = run_tasks ds_context split_rows split_cols create_leaf next_op data_slicer
            (h, (local_data, parent, children_pos, scope, no_clusters, no_independencies)
                # tasks)
    \<and> (\<forall>hf. run_tasks ds_context split_rows split_cols create_leaf next_op data_slicer
               (initial_heap, [(dataset, root, 0, scope0, False, False)]) = Some (Inr hf)
          \<longrightarrow> loop_reaches ds_context split_rows split_cols create_leaf next_op data_slicer
                (initial_heap, [(dataset, root, 0, scope0, False, False)]) (hf, []))
    \<and> get_next_operation min_instances_slice local_data scope no_clusters no_independencies
          (parent = root)
        = next_operation min_instances_slice local_data scope no_clusters no_independencies
            (parent = root) True False
    \<and> handle_split_rows ds_context (\<lambda>data ctx scope. [triple data ctx scope]) h tasks
          (local_data, root, children_pos, scope, no_clusters, no_independencies)
        = Inr (h, tasks @ [(local_data, root, children_pos, scope, True, False)])
    \<and> handle_split_columns ds_context (\<lambda>data ctx scope. [triple data ctx scope]) h tasks
          (local_data, root, children_pos, scope, no_clusters, no_independencies)
        = Inr (h, tasks @ [(local_data, root, children_pos, scope, False, True)])
    \<and> learn_structure (Some mixed_rows) (Some ds_context) (Some split_halves)
          (Some split_each_column) (Some keep_leaf) (Some (get_next_operation 1)) None
          default_slicer no_ids no_pruning always_valid
        = Some (Inr (mixed_rows_heap, Some 1))
    \<and> next_operation 1 mixed_rows [0, 1] False False True False False
        = Inr (SPLIT_COLUMNS, None)
    \<and> next_operation 1 \<lparr>shape0 = 2, columns = [[0, 1], [0, 1]]\<rparr> [0, 1] False False True True
          False
        = Inr (SPLIT_ROWS, None)
    \<and> next_operation 1 \<lparr>shape0 = 2, columns = [[0, 1]]\<rparr> [0] False False False True True
        = Inr (SPLIT_ROWS, None)"
proof -
  let ?st0 = "(initial_heap, [(dataset, root, 0, scope0, False, False)]) :: 'b heap \<times> task list"
  let ?t = "(local_data, parent, children_pos, scope, no_clusters, no_independencies)"
  have inv: "root_lineage dataset scope0 (h, ?t # tasks)"
    using loop_reaches_root_lineage [OF assms root_lineage_initial] .
  have first: "parent = root \<longrightarrow>
          local_data = dataset \<and> children_pos = 0 \<and> scope = scope0
          \<and> list_all (\<lambda>t. fst (snd t) \<noteq> root) tasks"
  proof
    assume r: "parent = root"
    from inv r have "filter (\<lambda>t. fst (snd t) = root) tasks = []"
      by (simp add: root_lineage_def)
    then have "list_all (\<lambda>t. fst (snd t) \<noteq> root) tasks"
      by (auto simp: filter_empty_conv list_all_iff)
    moreover from inv r have "local_data = dataset \<and> children_pos = 0 \<and> scope = scope0"
      by (simp add: root_lineage_def)
    ultimately show "local_data = dataset \<and> children_pos = 0 \<and> scope = scope0
          \<and> list_all (\<lambda>t. fst (snd t) \<noteq> root) tasks"
      by simp
  qed
  have call: "loop_body ds_context split_rows split_cols create_leaf next_op data_slicer
           (h, ?t # tasks)
         = dispatch ds_context split_rows split_cols create_leaf data_slicer h tasks ?t
             (next_op local_data scope no_clusters no_independencies (parent = root))"
    by (simp add: loop_body_def)
  have same: "run_tasks ds_context split_rows split_cols create_leaf next_op data_slicer ?st0
        = run_tasks ds_context split_rows split_cols create_leaf next_op data_slicer
            (h, ?t # tasks)"
    using loop_reaches_same_run [OF assms] .
  have fin: "\<forall>hf. run_tasks ds_context split_rows split_cols create_leaf next_op data_slicer
               ?st0 = Some (Inr hf)
          \<longrightarrow> loop_reaches ds_context split_rows split_cols create_leaf next_op data_slicer
                ?st0 (hf, [])"
  proof (intro allI impI)
    fix hf
    assume "run_tasks ds_context split_rows split_cols create_leaf next_op data_slicer
               ?st0 = Some (Inr hf)"
    from run_tasks_reaches [OF this]
    show "loop_reaches ds_context split_rows split_cols create_leaf next_op data_slicer
                ?st0 (hf, [])"
      by simp
  qed
  have dflt: "get_next_operation min_instances_slice local_data scope no_clusters
          no_independencies (parent = root)
        = next_operation min_instances_slice local_data scope no_clusters no_independencies
            (parent = root) True False"
    by (simp add: get_next_operation_def)
  have call': "next_op = get_next_operation min_instances_slice \<longrightarrow>
          loop_body ds_context split_rows split_cols create_leaf next_op data_slicer
            (h, ?t # tasks)
          = dispatch ds_context split_rows split_cols create_leaf data_slicer h tasks ?t
              (next_operation min_instances_slice local_data scope no_clusters
                 no_independencies (parent = root) True False)"
    by (simp add: loop_body_def get_next_operation_def)
  have ls: "learn_structure (Some dataset) (Some ds_context) (Some split_rows) (Some split_cols)
          (Some create_leaf) (Some next_op) (Some scope0) data_slicer assign_ids Prune is_valid
        = (case run_tasks ds_context split_rows split_cols create_leaf next_op data_slicer
                  (h, ?t # tasks) of
             None \<Rightarrow> None
           | Some (Inl e) \<Rightarrow> Some (Inl e)
           | Some (Inr hf) \<Rightarrow> Some (post_process assign_ids Prune is_valid hf))"
    unfolding same [symmetric] by (simp add: learn_structure_def)
  have rq: "handle_split_rows ds_context (\<lambda>data ctx scope. [triple data ctx scope]) h tasks
          (local_data, root, children_pos, scope, no_clusters, no_independencies)
        = Inr (h, tasks @ [(local_data, root, children_pos, scope, True, False)])"
    "handle_split_columns ds_context (\<lambda>data ctx scope. [triple data ctx scope]) h tasks
          (local_data, root, children_pos, scope, no_clusters, no_independencies)
        = Inr (h, tasks @ [(local_data, root, children_pos, scope, False, True)])"
    by (simp_all add: handle_split_rows_def handle_split_columns_def)
  show ?thesis
    apply (intro conjI)
                apply (rule call)
               apply (rule call')
              apply (rule first)
             apply (rule ls)
            apply (rule same)
           apply (rule fin)
          apply (rule dflt)
         apply (rule rq(1))
        apply (rule rq(2))
       apply (rule mixed_rows_learn_structure)
      apply (rule mixed_rows_contrast(2))
     apply (rule mixed_rows_contrast(5))
    apply (rule mixed_rows_contrast(7))
    done
qed

text \<open>
  The state after the first iteration on \<open>mixed_rows\<close>: its head task is a child of the
  Sum node and is not first.
\<close>

theorem policy_call_flags_witness:
  "loop_reaches () split_halves split_each_column keep_leaf (get_next_operation 1)
     default_slicer
     (initial_heap, [(mixed_rows, root, 0, [0, 1], False, False)])
     ([Product [] [Some 1], Sum [0, 1] [None, None] [1 / 2, 1 / 2]],
      [(\<lparr>shape0 = 2, columns = [[0, 1], [0, 1]]\<rparr>, 1, 0, [0, 1], False, False),
       (\<lparr>shape0 = 2, columns = [[0, 1], [1, 0]]\<rparr>, 1, 1, [0, 1], False, False)])
   \<and> loop_body () split_halves split_each_column keep_leaf (get_next_operation 1)
       default_slicer
       ([Product [] [Some 1], Sum [0, 1] [None, None] [1 / 2, 1 / 2]],
        [(\<lparr>shape0 = 2, columns = [[0, 1], [0, 1]]\<rparr>, 1, 0, [0, 1], False, False),
         (\<lparr>shape0 = 2, columns = [[0, 1], [1, 0]]\<rparr>, 1, 1, [0, 1], False, False)])
     = dispatch () split_halves split_each_column keep_leaf default_slicer
         [Product [] [Some 1], Sum [0, 1] [None, None] [1 / 2, 1 / 2]]
         [(\<lparr>shape0 = 2, columns = [[0, 1], [1, 0]]\<rparr>, 1, 1, [0, 1], False, False)]
         (\<lparr>shape0 = 2, columns = [[0, 1], [0, 1]]\<rparr>, 1, 0, [0, 1], False, False)
         (Inr (SPLIT_COLUMNS, None))
   \<and> ((1 :: nat) = root) = False"
proof -
  let ?st0 = "(initial_heap, [(mixed_rows, root, 0, [0, 1], False, False)])
              :: (ndarray \<times> scope) heap \<times> task list"
  let ?st1 = "([Product [] [Some 1], Sum [0, 1] [None, None] [1 / 2, 1 / 2]],
      [(\<lparr>shape0 = 2, columns = [[0, 1], [0, 1]]\<rparr>, 1, 0, [0, 1], False, False),
       (\<lparr>shape0 = 2, columns = [[0, 1], [1, 0]]\<rparr>, 1, 1, [0, 1], False, False)])
              :: (ndarray \<times> scope) heap \<times> task list"
  have r: "loop_reaches () split_halves split_each_column keep_leaf (get_next_operation 1)
             default_slicer ?st0 ?st1"
    using loop_reaches.iterate [OF loop_reaches.start mixed_rows_step1] .
  have nr: "((1 :: nat) = root) = False" by (simp add: root_def)
  have pol: "get_next_operation 1 \<lparr>shape0 = 2, columns = [[0, 1], [0, 1]]\<rparr> [0, 1] False False
               ((1 :: nat) = root) = Inr (SPLIT_COLUMNS, None)"
    unfolding nr get_next_operation_def by (rule mixed_rows_contrast(4))
  show ?thesis
    using r nr policy_call_flags [OF r, THEN conjunct1] pol by simp
qed

lemma root_slot_fill:
  assumes "set_child (h @ [nd]) p pos (length h) = Inr h2"
    and "root_slot h c" and "children nd = []"
  shows "\<exists>c'. root_slot h2 c' \<and> (c \<noteq> None \<longrightarrow> c' \<noteq> None) \<and> (p = root \<longrightarrow> c' \<noteq> None)"
proof -
  from assms(2) obtain s where ne: "h \<noteq> []" and r: "h ! 0 = Product s [c]"
    by (auto simp: root_slot_def root_def)
  have len: "length h2 = Suc (length h)" using set_child_fresh(2) [OF assms(1,3)] .
  have r1: "(h @ [nd]) ! 0 = Product s [c]" using ne r by (simp add: nth_append)
  show ?thesis
  proof (cases "p = 0")
    case True
    have "h2 ! 0 = Product s [Some (length h)]"
      using assms(1) r1 True by (auto simp: set_child_def split: if_splits)
    then show ?thesis using len by (auto simp: root_slot_def root_def)
  next
    case False
    then have "h2 ! 0 = Product s [c]"
      using set_child_Inr(4) [OF assms(1), of 0] r1 by simp
    then show ?thesis using len False by (auto simp: root_slot_def root_def)
  qed
qed

lemma root_slot_append_child:
  assumes "root_slot h c" and "node \<noteq> root"
  shows "root_slot (append_child h node) c"
  using assms by (auto simp: root_slot_def append_child_def root_def)

lemma root_slot_append_weight:
  assumes "root_slot h c" and "node \<noteq> root"
  shows "root_slot (append_weight h node w) c"
  using assms by (auto simp: root_slot_def append_weight_def root_def)

lemma enqueue_row_slices_frame:
  assumes "enqueue_row_slices node sc sl (h, ts) = (h', ts')"
    and "root_slot h c" and "node \<noteq> root"
  shows "root_slot h' c \<and> (\<exists>new. ts' = ts @ new)"
  using assms
proof (induction sl arbitrary: h ts)
  case Nil
  then show ?case by simp
next
  case (Cons t sl)
  obtain d s w where t: "t = (d, s, w)" by (cases t)
  let ?h2 = "append_weight (append_child h node) node w"
  have rec: "enqueue_row_slices node sc sl
               (?h2, ts @ [(d, node, last_slot ?h2 node, sc, False, False)]) = (h', ts')"
    using Cons.prems(1) by (simp add: t Let_def)
  have "root_slot ?h2 c"
    using root_slot_append_weight [OF root_slot_append_child [OF Cons.prems(2,3)] Cons.prems(3)] .
  from Cons.IH [OF rec this Cons.prems(3)] show ?case by auto
qed

lemma enqueue_col_slices_frame:
  assumes "enqueue_col_slices node sl (h, ts) = (h', ts')"
    and "root_slot h c" and "node \<noteq> root"
  shows "root_slot h' c \<and> (\<exists>new. ts' = ts @ new)"
  using assms
proof (induction sl arbitrary: h ts)
  case Nil
  then show ?case by simp
next
  case (Cons t sl)
  obtain d s w where t: "t = (d, s, w)" by (cases t)
  let ?h1 = "append_child h node"
  have rec: "enqueue_col_slices node sl
               (?h1, ts @ [(d, node, last_slot ?h1 node, s, False, False)]) = (h', ts')"
    using Cons.prems(1) by (simp add: t Let_def)
  from Cons.IH [OF rec root_slot_append_child [OF Cons.prems(2,3)] Cons.prems(3)]
  show ?case by auto
qed

lemma factorize_columns_frame:
  assumes "factorize_columns data_slicer d sc node cols (h, ts) = Inr (h', ts')"
    and "root_slot h c" and "node \<noteq> root"
  shows "root_slot h' c \<and> (\<exists>new. ts' = ts @ new)"
  using assms
proof (induction cols arbitrary: h ts)
  case Nil
  then show ?case by simp
next
  case (Cons col cols)
  from Cons.prems(1) obtain slice where
    rec: "factorize_columns data_slicer d sc node cols
            (append_child h node,
             ts @ [(slice, node, last_slot (append_child h node) node, [sc ! col], True, True)])
          = Inr (h', ts')"
    by (auto simp: Let_def split: sum.splits if_splits)
  from Cons.IH [OF rec root_slot_append_child [OF Cons.prems(2,3)] Cons.prems(3)]
  show ?case by auto
qed

lemma remove_columns_frame:
  assumes "remove_columns data_slicer d sc node cols (h, ts, rest) = Inr (h', ts', rest')"
    and "root_slot h c" and "node \<noteq> root"
  shows "root_slot h' c \<and> (\<exists>new. ts' = ts @ new)"
  using assms
proof (induction cols arbitrary: h ts rest)
  case Nil
  then show ?case by simp
next
  case (Cons col cols)
  from Cons.prems(1) obtain slice where
    rec: "remove_columns data_slicer d sc node cols
            (append_child h node,
             ts @ [(slice, node, last_slot (append_child h node) node, [sc ! col], True, True)],
             removeAll col rest)
          = Inr (h', ts', rest')"
    by (auto simp: Let_def split: sum.splits if_splits)
  from Cons.IH [OF rec root_slot_append_child [OF Cons.prems(2,3)] Cons.prems(3)]
  show ?case by auto
qed

lemma fresh_not_root: "root_slot h c \<Longrightarrow> length h \<noteq> root"
  by (auto simp: root_slot_def root_def)

lemma handle_split_rows_root:
  assumes "handle_split_rows ctx split_rows h ts (d, p, pos, sc, nc, ni) = Inr (h', ts')"
    and "root_slot h c"
  shows "root_step h ts p c h' ts'"
proof (cases "length (split_rows d ctx sc) = 1")
  case True
  then have "h' = h" and "ts' = ts @ [(d, p, pos, sc, True, False)]"
    using assms(1) by (simp_all add: handle_split_rows_def)
  then show ?thesis using assms(2) by (auto simp: root_step_def)
next
  case False
  with assms(1) obtain h2 where
    sc: "set_child (h @ [Sum sc [] []]) p pos (length h) = Inr h2" and
    lp: "enqueue_row_slices (length h) sc (split_rows d ctx sc) (h2, ts) = (h', ts')"
    by (auto simp: handle_split_rows_def Let_def split: sum.splits)
  from root_slot_fill [OF sc assms(2)] obtain c' where
    c': "root_slot h2 c'" "c \<noteq> None \<longrightarrow> c' \<noteq> None" "p = root \<longrightarrow> c' \<noteq> None"
    by auto
  from enqueue_row_slices_frame [OF lp c'(1) fresh_not_root [OF assms(2)]] c'(2,3)
  show ?thesis by (auto simp: root_step_def)
qed

lemma handle_split_columns_root:
  assumes "handle_split_columns ctx split_cols h ts (d, p, pos, sc, nc, ni) = Inr (h', ts')"
    and "root_slot h c"
  shows "root_step h ts p c h' ts'"
proof (cases "length (split_cols d ctx sc) = 1")
  case True
  then have "h' = h" and "ts' = ts @ [(d, p, pos, sc, False, True)]"
    using assms(1) by (simp_all add: handle_split_columns_def)
  then show ?thesis using assms(2) by (auto simp: root_step_def)
next
  case False
  with assms(1) obtain h2 where
    sc: "set_child (h @ [Product sc []]) p pos (length h) = Inr h2" and
    lp: "enqueue_col_slices (length h) (split_cols d ctx sc) (h2, ts) = (h', ts')"
    by (auto simp: handle_split_columns_def Let_def split: sum.splits)
  from root_slot_fill [OF sc assms(2)] obtain c' where
    c': "root_slot h2 c'" "c \<noteq> None \<longrightarrow> c' \<noteq> None" "p = root \<longrightarrow> c' \<noteq> None"
    by auto
  from enqueue_col_slices_frame [OF lp c'(1) fresh_not_root [OF assms(2)]] c'(2,3)
  show ?thesis by (auto simp: root_step_def)
qed

lemma handle_naive_factorization_root:
  assumes "handle_naive_factorization data_slicer h ts (d, p, pos, sc, nc, ni) = Inr (h', ts')"
    and "root_slot h c"
  shows "root_step h ts p c h' ts'"
proof -
  from assms(1) obtain h2 where
    sc: "set_child (h @ [Product sc []]) p pos (length h) = Inr h2" and
    lp: "factorize_columns data_slicer d sc (length h) [0..<length sc] (h2, ts) = Inr (h', ts')"
    by (auto simp: handle_naive_factorization_def Let_def split: sum.splits)
  from root_slot_fill [OF sc assms(2)] obtain c' where
    c': "root_slot h2 c'" "c \<noteq> None \<longrightarrow> c' \<noteq> None" "p = root \<longrightarrow> c' \<noteq> None"
    by auto
  from factorize_columns_frame [OF lp c'(1) fresh_not_root [OF assms(2)]] c'(2,3)
  show ?thesis by (auto simp: root_step_def)
qed

lemma handle_remove_uninformative_features_root:
  assumes "handle_remove_uninformative_features data_slicer h ts (d, p, pos, sc, nc, ni) prm
           = Inr (h', ts')"
    and "root_slot h c"
  shows "root_step h ts p c h' ts'"
proof -
  from assms(1) obtain h2 cols h3 ts3 rest slice where
    sc: "set_child (h @ [Product sc []]) p pos (length h) = Inr h2" and
    lp: "remove_columns data_slicer d sc (length h) cols (h2, ts, [0..<length sc])
         = Inr (h3, ts3, rest)" and
    h': "h' = append_child h3 (length h)" and
    ts': "ts' = ts3 @ [(slice, length h, last_slot h' (length h), rest,
                        length rest = 1, length rest = 1)]"
    by (auto simp: handle_remove_uninformative_features_def Let_def
        split: sum.splits option.splits)
  from root_slot_fill [OF sc assms(2)] obtain c' where
    c': "root_slot h2 c'" "c \<noteq> None \<longrightarrow> c' \<noteq> None" "p = root \<longrightarrow> c' \<noteq> None"
    by auto
  from remove_columns_frame [OF lp c'(1) fresh_not_root [OF assms(2)]]
  have f: "root_slot h3 c'" and g: "\<exists>new. ts3 = ts @ new" by auto
  have "root_slot h' c'"
    unfolding h' using root_slot_append_child [OF f fresh_not_root [OF assms(2)]] .
  moreover have "\<exists>new. ts' = ts @ new" using g ts' by auto
  ultimately show ?thesis using c'(2,3) by (auto simp: root_step_def)
qed

lemma handle_create_leaf_root:
  assumes "handle_create_leaf ctx create_leaf h ts (d, p, pos, sc, nc, ni) = Inr (h', ts')"
    and "root_slot h c"
  shows "root_step h ts p c h' ts'"
proof -
  from assms(1) have
    sc: "set_child (h @ [Leaf (create_leaf d ctx sc)]) p pos (length h) = Inr h'" and
    ts': "ts' = ts"
    by (auto simp: handle_create_leaf_def Let_def split: sum.splits)
  from root_slot_fill [OF sc assms(2)] ts' show ?thesis
    by (auto simp: root_step_def)
qed

lemma loop_body_root_inv:
  assumes "loop_body ctx split_rows split_cols create_leaf next_op data_slicer st = Inr st'"
    and "root_inv st"
  shows "root_inv st'"
proof -
  obtain h q where st: "st = (h, q)" by (cases st)
  obtain h' q' where st': "st' = (h', q')" by (cases st')
  from assms(1) obtain d p pos sc nc ni ts operation prm where
    q: "q = (d, p, pos, sc, nc, ni) # ts" and
    dec: "next_op d sc nc ni (p = root) = Inr (operation, prm)"
    by (auto simp: st loop_body_def dispatch_def split: list.splits sum.splits)
  from assms(2) obtain c where
    c: "root_slot h c" and pend: "c = None \<longrightarrow> p = root \<or> list_ex (\<lambda>t. fst (snd t) = root) ts"
    by (auto simp: root_inv_def st q)
  have "root_step h ts p c h' q'"
  proof (cases operation)
    case CREATE_LEAF
    then have "handle_create_leaf ctx create_leaf h ts (d, p, pos, sc, nc, ni) = Inr (h', q')"
      using assms(1) by (simp add: st st' q loop_body_def dispatch_def dec)
    from handle_create_leaf_root [OF this c] show ?thesis .
  next
    case SPLIT_COLUMNS
    then have "handle_split_columns ctx split_cols h ts (d, p, pos, sc, nc, ni) = Inr (h', q')"
      using assms(1) by (simp add: st st' q loop_body_def dispatch_def dec)
    from handle_split_columns_root [OF this c] show ?thesis .
  next
    case SPLIT_ROWS
    then have "handle_split_rows ctx split_rows h ts (d, p, pos, sc, nc, ni) = Inr (h', q')"
      using assms(1) by (simp add: st st' q loop_body_def dispatch_def dec)
    from handle_split_rows_root [OF this c] show ?thesis .
  next
    case NAIVE_FACTORIZATION
    then have "handle_naive_factorization data_slicer h ts (d, p, pos, sc, nc, ni) = Inr (h', q')"
      using assms(1) by (simp add: st st' q loop_body_def dispatch_def dec)
    from handle_naive_factorization_root [OF this c] show ?thesis .
  next
    case REMOVE_UNINFORMATIVE_FEATURES
    then have "handle_remove_uninformative_features data_slicer h ts (d, p, pos, sc, nc, ni) prm
               = Inr (h', q')"
      using assms(1) by (simp add: st st' q loop_body_def dispatch_def dec)
    from handle_remove_uninformative_features_root [OF this c] show ?thesis .
  qed
  then obtain new c' where
    new: "q' = ts @ new" and c': "root_slot h' c'" "c \<noteq> None \<longrightarrow> c' \<noteq> None"
      "p = root \<longrightarrow> c' \<noteq> None \<or> list_ex (\<lambda>t. fst (snd t) = root) q'"
    by (auto simp: root_step_def)
  have "c' = None \<longrightarrow> list_ex (\<lambda>t. fst (snd t) = root) q'"
    using pend c'(2,3) new by (auto simp: list_ex_iff)
  then show ?thesis using c'(1) by (auto simp: root_inv_def st')
qed

lemma run_tasks_root_filled:
  assumes "run_tasks ctx split_rows split_cols create_leaf next_op data_slicer st = Some r"
  shows "root_inv st \<longrightarrow> (\<forall>hf. r = Inr hf \<longrightarrow> (\<exists>n. root_child hf = Inr (Some n)))"
proof (rule run_tasks.raw_induct
    [where P = "\<lambda>ctx split_rows split_cols create_leaf next_op data_slicer st r.
       root_inv st \<longrightarrow> (\<forall>hf. r = Inr hf \<longrightarrow> (\<exists>n. root_child hf = Inr (Some n)))",
     OF _ assms], goal_cases)
  case (1 run ctx split_rows split_cols create_leaf next_op data_slicer st r)
  note IH = "1"(1) and eq = "1"(2)
  show ?case
  proof (cases "snd st = []")
    case True
    then have "r = Inr (fst st)" using eq by simp
    then show ?thesis
      using True by (auto simp: root_inv_def root_slot_def root_child_def root_def)
  next
    case False
    show ?thesis
    proof (cases "loop_body ctx split_rows split_cols create_leaf next_op data_slicer st")
      case (Inl e)
      then show ?thesis using eq False by auto
    next
      case (Inr st')
      then have rec: "run ctx split_rows split_cols create_leaf next_op data_slicer st' = Some r"
        using eq False by simp
      have "root_inv st \<Longrightarrow> root_inv st'"
        using loop_body_root_inv [OF Inr] .
      then show ?thesis using IH [OF rec] by blast
    qed
  qed
qed

lemma initial_root_inv: "root_inv (initial_heap, [(d, root, pos, sc, nc, ni)])"
  by (simp add: root_inv_def root_slot_def initial_heap_def root_def)

text \<open>
  C8: a node that \<^verbatim>\<open>learn_structure\<close> returns is the pruning of the root's child,
  which is filled when the queue is empty, after identifiers were assigned to it, and
  it passes the validity check; when the loop has ended and the check fails on the
  pruned node, AssertionError is raised instead; and when the check succeeds on it, the
  pruned node is what \<^verbatim>\<open>learn_structure\<close> returns.
\<close>

theorem returned_tree_is_valid:
  "(learn_structure dataset ds_context split_rows split_cols create_leaf next_op
      initial_scope data_slicer assign_ids Prune is_valid = Some (Inr (h, node))
    \<longrightarrow> fst (is_valid h node)
      \<and> (\<exists>d c r cs l p h0 n.
            dataset = Some d \<and> ds_context = Some c \<and> split_rows = Some r \<and> split_cols = Some cs
          \<and> create_leaf = Some l \<and> next_op = Some p
          \<and> run_tasks c r cs l p data_slicer
               (initial_heap,
                [(d, root, 0, case initial_scope of None \<Rightarrow> [0..<shape1 d] | Some s \<Rightarrow> s,
                  False, False)]) = Some (Inr h0)
          \<and> root_child h0 = Inr (Some n)
          \<and> (h, node) = Prune (assign_ids h0 (Some n)) (Some n)))
   \<and> (run_tasks c' r' cs' l' p' data_slicer
         (initial_heap,
          [(d', root, 0, case initial_scope of None \<Rightarrow> [0..<shape1 d'] | Some s \<Rightarrow> s,
            False, False)]) = Some (Inr h0')
       \<and> root_child h0' = Inr child'
       \<and> Prune (assign_ids h0' child') child' = (h', node')
       \<and> \<not> fst (is_valid h' node')
    \<longrightarrow> learn_structure (Some d') (Some c') (Some r') (Some cs') (Some l') (Some p')
          initial_scope data_slicer assign_ids Prune is_valid = Some (Inl AssertionError))
   \<and> (run_tasks c' r' cs' l' p' data_slicer
         (initial_heap,
          [(d', root, 0, case initial_scope of None \<Rightarrow> [0..<shape1 d'] | Some s \<Rightarrow> s,
            False, False)]) = Some (Inr h0')
       \<and> root_child h0' = Inr child'
       \<and> Prune (assign_ids h0' child') child' = (h', node')
       \<and> fst (is_valid h' node')
    \<longrightarrow> learn_structure (Some d') (Some c') (Some r') (Some cs') (Some l') (Some p')
          initial_scope data_slicer assign_ids Prune is_valid = Some (Inr (h', node')))"
proof (rule conjI)
  show "learn_structure dataset ds_context split_rows split_cols create_leaf next_op
      initial_scope data_slicer assign_ids Prune is_valid = Some (Inr (h, node))
    \<longrightarrow> fst (is_valid h node)
      \<and> (\<exists>d c r cs l p h0 n.
            dataset = Some d \<and> ds_context = Some c \<and> split_rows = Some r \<and> split_cols = Some cs
          \<and> create_leaf = Some l \<and> next_op = Some p
          \<and> run_tasks c r cs l p data_slicer
               (initial_heap,
                [(d, root, 0, case initial_scope of None \<Rightarrow> [0..<shape1 d] | Some s \<Rightarrow> s,
                  False, False)]) = Some (Inr h0)
          \<and> root_child h0 = Inr (Some n)
          \<and> (h, node) = Prune (assign_ids h0 (Some n)) (Some n))"
  proof
    assume res: "learn_structure dataset ds_context split_rows split_cols create_leaf next_op
      initial_scope data_slicer assign_ids Prune is_valid = Some (Inr (h, node))"
    then obtain d c r cs l p h0 child where
      args: "dataset = Some d" "ds_context = Some c" "split_rows = Some r"
        "split_cols = Some cs" "create_leaf = Some l" "next_op = Some p" and
      run: "run_tasks c r cs l p data_slicer
              (initial_heap,
               [(d, root, 0, case initial_scope of None \<Rightarrow> [0..<shape1 d] | Some s \<Rightarrow> s,
                 False, False)]) = Some (Inr h0)" and
      child: "root_child h0 = Inr child" and
      pruned: "(h, node) = Prune (assign_ids h0 child) child" and
      valid: "fst (is_valid h node)"
      by (auto simp: learn_structure_def post_process_def Let_def
          split: option.splits sum.splits if_splits)
    from run_tasks_root_filled [OF run] initial_root_inv child obtain n where
      n: "child = Some n"
      by fastforce
    show "fst (is_valid h node)
      \<and> (\<exists>d c r cs l p h0 n.
            dataset = Some d \<and> ds_context = Some c \<and> split_rows = Some r \<and> split_cols = Some cs
          \<and> create_leaf = Some l \<and> next_op = Some p
          \<and> run_tasks c r cs l p data_slicer
               (initial_heap,
                [(d, root, 0, case initial_scope of None \<Rightarrow> [0..<shape1 d] | Some s \<Rightarrow> s,
                  False, False)]) = Some (Inr h0)
          \<and> root_child h0 = Inr (Some n)
          \<and> (h, node) = Prune (assign_ids h0 (Some n)) (Some n))"
      using args run child pruned valid unfolding n by blast
  qed
  have fails: "run_tasks c' r' cs' l' p' data_slicer
         (initial_heap,
          [(d', root, 0, case initial_scope of None \<Rightarrow> [0..<shape1 d'] | Some s \<Rightarrow> s,
            False, False)]) = Some (Inr h0')
       \<and> root_child h0' = Inr child'
       \<and> Prune (assign_ids h0' child') child' = (h', node')
       \<and> \<not> fst (is_valid h' node')
    \<longrightarrow> learn_structure (Some d') (Some c') (Some r') (Some cs') (Some l') (Some p')
          initial_scope data_slicer assign_ids Prune is_valid = Some (Inl AssertionError)"
    by (simp add: learn_structure_def post_process_def Let_def)
  have succeeds: "run_tasks c' r' cs' l' p' data_slicer
         (initial_heap,
          [(d', root, 0, case initial_scope of None \<Rightarrow> [0..<shape1 d'] | Some s \<Rightarrow> s,
            False, False)]) = Some (Inr h0')
       \<and> root_child h0' = Inr child'
       \<and> Prune (assign_ids h0' child') child' = (h', node')
       \<and> fst (is_valid h' node')
    \<longrightarrow> learn_structure (Some d') (Some c') (Some r') (Some cs') (Some l') (Some p')
          initial_scope data_slicer assign_ids Prune is_valid = Some (Inr (h', node'))"
    by (simp add: learn_structure_def post_process_def Let_def)
  show "(run_tasks c' r' cs' l' p' data_slicer
         (initial_heap,
          [(d', root, 0, case initial_scope of None \<Rightarrow> [0..<shape1 d'] | Some s \<Rightarrow> s,
            False, False)]) = Some (Inr h0')
       \<and> root_child h0' = Inr child'
       \<and> Prune (assign_ids h0' child') child' = (h', node')
       \<and> \<not> fst (is_valid h' node')
    \<longrightarrow> learn_structure (Some d') (Some c') (Some r') (Some cs') (Some l') (Some p')
          initial_scope data_slicer assign_ids Prune is_valid = Some (Inl AssertionError))
   \<and> (run_tasks c' r' cs' l' p' data_slicer
         (initial_heap,
          [(d', root, 0, case initial_scope of None \<Rightarrow> [0..<shape1 d'] | Some s \<Rightarrow> s,
            False, False)]) = Some (Inr h0')
       \<and> root_child h0' = Inr child'
       \<and> Prune (assign_ids h0' child') child' = (h', node')
       \<and> fst (is_valid h' node')
    \<longrightarrow> learn_structure (Some d') (Some c') (Some r') (Some cs') (Some l') (Some p')
          initial_scope data_slicer assign_ids Prune is_valid = Some (Inr (h', node')))"
    using fails succeeds by (rule conjI)
qed

lemma scenario_scope: "[0..<shape1 two_varying_columns] = [0, 1]"
  by (simp add: shape1_def two_varying_columns_def upt_rec)

lemma scenario_root_child: "root_child scenario_heap = Inr (Some 1)"
  by (simp add: root_child_def scenario_heap_def root_def)

lemma scenario_learn_structure:
  "learn_structure (Some two_varying_columns) (Some ()) (Some two_clusters) (Some single_slice)
     (Some keep_leaf) (Some (get_next_operation 1)) None default_slicer
     no_ids no_pruning is_valid
   = Some (if fst (is_valid scenario_heap (Some 1)) then Inr (scenario_heap, Some 1)
           else Inl AssertionError)"
  unfolding learn_structure_def option.case Let_def scenario_scope scenario_run
  by (simp add: post_process_def scenario_root_child no_ids_def no_pruning_def)

theorem returned_tree_is_valid_witness:
  "learn_structure (Some two_varying_columns) (Some ()) (Some two_clusters) (Some single_slice)
     (Some keep_leaf) (Some (get_next_operation 1)) None default_slicer
     no_ids no_pruning always_valid = Some (Inr (scenario_heap, Some 1))
   \<and> fst (always_valid scenario_heap (Some 1))
   \<and> run_tasks () two_clusters single_slice keep_leaf (get_next_operation 1) default_slicer
       (initial_heap, [(two_varying_columns, root, 0, [0, 1], False, False)])
     = Some (Inr scenario_heap)
   \<and> root_child scenario_heap = Inr (Some 1)
   \<and> \<not> fst (never_valid scenario_heap (Some 1))
   \<and> learn_structure (Some two_varying_columns) (Some ()) (Some two_clusters) (Some single_slice)
       (Some keep_leaf) (Some (get_next_operation 1)) None default_slicer
       no_ids no_pruning never_valid = Some (Inl AssertionError)"
proof -
  have b': "run_tasks () two_clusters single_slice keep_leaf (get_next_operation 1)
             default_slicer
             (initial_heap,
              [(two_varying_columns, root, 0,
                case None of None \<Rightarrow> [0..<shape1 two_varying_columns] | Some s \<Rightarrow> s,
                False, False)]) = Some (Inr scenario_heap)
           \<and> root_child scenario_heap = Inr (Some 1)
           \<and> no_pruning (no_ids scenario_heap (Some 1)) (Some 1) = (scenario_heap, Some 1)
           \<and> fst (always_valid scenario_heap (Some 1))"
    unfolding option.case scenario_scope scenario_run
    by (simp add: scenario_root_child always_valid_def no_pruning_def no_ids_def)
  have a: "learn_structure (Some two_varying_columns) (Some ()) (Some two_clusters)
             (Some single_slice) (Some keep_leaf) (Some (get_next_operation 1)) None
             default_slicer no_ids no_pruning always_valid = Some (Inr (scenario_heap, Some 1))"
    using returned_tree_is_valid
      [where initial_scope = None and data_slicer = default_slicer and assign_ids = no_ids
         and Prune = no_pruning and is_valid = always_valid and h' = scenario_heap
         and node' = "Some 1" and h0' = scenario_heap and child' = "Some 1"
         and d' = two_varying_columns and c' = "()" and r' = two_clusters
         and cs' = single_slice and l' = keep_leaf and p' = "get_next_operation 1",
       THEN conjunct2, THEN conjunct2] b'
    by blast
  have b: "run_tasks () two_clusters single_slice keep_leaf (get_next_operation 1)
             default_slicer
             (initial_heap,
              [(two_varying_columns, root, 0,
                case None of None \<Rightarrow> [0..<shape1 two_varying_columns] | Some s \<Rightarrow> s,
                False, False)]) = Some (Inr scenario_heap)
           \<and> root_child scenario_heap = Inr (Some 1)
           \<and> no_pruning (no_ids scenario_heap (Some 1)) (Some 1) = (scenario_heap, Some 1)
           \<and> \<not> fst (never_valid scenario_heap (Some 1))"
    unfolding option.case scenario_scope scenario_run
    by (simp add: scenario_root_child never_valid_def no_pruning_def no_ids_def)
  have c: "fst (always_valid scenario_heap (Some 1))"
    using returned_tree_is_valid [THEN conjunct1, rule_format, OF a] by simp
  have d: "learn_structure (Some two_varying_columns) (Some ()) (Some two_clusters)
             (Some single_slice) (Some keep_leaf) (Some (get_next_operation 1)) None
             default_slicer no_ids no_pruning never_valid = Some (Inl AssertionError)"
    using returned_tree_is_valid
      [where initial_scope = None and data_slicer = default_slicer and assign_ids = no_ids
         and Prune = no_pruning and is_valid = never_valid and h' = scenario_heap
         and node' = "Some 1" and h0' = scenario_heap and child' = "Some 1"
         and d' = two_varying_columns and c' = "()" and r' = two_clusters
         and cs' = single_slice and l' = keep_leaf and p' = "get_next_operation 1",
       THEN conjunct2, THEN conjunct1] b
    by blast
  show ?thesis
    using a c d scenario_run [of "()" single_slice] scenario_root_child
    by (simp add: never_valid_def)
qed

theorem preconditions_fail_first_witness:
  "learn_structure None (Some ()) (Some single_slice) (Some single_slice) (Some keep_leaf)
     (Some (get_next_operation 1)) None default_slicer no_ids no_pruning always_valid
   = Some (Inl AssertionError)
   \<and> learn_structure (Some two_varying_columns) (Some ()) (Some single_slice)
       (Some single_slice) (Some keep_leaf) None None default_slicer no_ids no_pruning
       always_valid
   = Some (Inl AssertionError)"
  using preconditions_fail_first
      [of None "Some ()" "Some single_slice" "Some single_slice" "Some keep_leaf"
         "Some (get_next_operation 1)" None default_slicer no_ids no_pruning always_valid]
    preconditions_fail_first
      [of "Some two_varying_columns" "Some ()" "Some single_slice" "Some single_slice"
         "Some keep_leaf" None None default_slicer no_ids no_pruning always_valid]
  by simp

end
